theory Spec2Isabelle
  imports Main "HOL-Library.Multiset"
begin

section \<open>Data model\<close>

text \<open>
  The record type shared by the extractors and the reports (\<open>ParsedRecord\<close> in the
  extractors, \<open>Row\<close> in \<open>src/report.ts\<close>). The two status fields are unions of four
  string literals each; they are modelled as datatypes, with the literal they stand for
  given by \<open>comp_text\<close> and \<open>op_text\<close>. A JavaScript string is a sequence of code units;
  \<open>string\<close> models the code units below 256.
\<close>

datatype estado_comp = Ganando | Perdiendo | Compartiendo_primer_lugar | SIN_ESTADO

datatype estado_op = Activa | Pausada | Inactiva | UNKNOWN

fun comp_text :: "estado_comp \<Rightarrow> string" where
  "comp_text Ganando = ''Ganando''"
| "comp_text Perdiendo = ''Perdiendo''"
| "comp_text Compartiendo_primer_lugar = ''Compartiendo primer lugar''"
| "comp_text SIN_ESTADO = ''SIN_ESTADO''"

fun op_text :: "estado_op \<Rightarrow> string" where
  "op_text Activa = ''Activa''"
| "op_text Pausada = ''Pausada''"
| "op_text Inactiva = ''Inactiva''"
| "op_text UNKNOWN = ''UNKNOWN''"

record ParsedRecord =
  sku :: string
  itemId :: string
  estado_competencia :: estado_comp
  estado_operativo :: estado_op
  titulo :: string

section \<open>Regular expressions\<close>

text \<open>
  The extractors are written with JavaScript regular expressions. \<open>rx\<close> is the syntax of
  the patterns they use: classes of code units, literal text (compared after
  canonicalisation when the flag \<open>i\<close> is set), sequence, alternation, a class repeated
  \<open>{n,}\<close> times greedily or lazily, one capture group, and the assertions \<open>\b\<close>, \<open>^\<close>
  and \<open>$\<close>. \<open>rmatch\<close> is the backtracking matcher of the language definition, with a
  continuation for the rest of the pattern; a state is the code unit before the current
  position (\<open>None\<close> at the start of the input), the input that remains, and the text of
  the capture group.
\<close>

type_synonym mstate = "char option \<times> string \<times> string option"

datatype rx =
    Eps
  | Cls "char \<Rightarrow> bool"
  | Lit bool string
  | Seq rx rx
  | Alt rx rx
  | Rep bool nat "char \<Rightarrow> bool"
  | Grp rx
  | Bnd
  | Bol
  | Eol

text \<open>
  The classes \<open>\d\<close>, \<open>[A-Za-z]\<close>, \<open>\w\<close> and \<open>\s\<close> on code units below 256 (\<open>\s\<close> has the
  no-break space 160 there), and the canonicalisation of the flag \<open>i\<close>: the upper-case
  code unit, which differs from the code unit for \<open>a\<close> to \<open>z\<close> and for the Latin-1 letters
  224 to 254 other than 247.
\<close>

definition code :: "char \<Rightarrow> nat" where
  "code c = of_char c"

definition is_digit :: "char \<Rightarrow> bool" where
  "is_digit c = (48 \<le> code c \<and> code c \<le> 57)"

definition is_alpha :: "char \<Rightarrow> bool" where
  "is_alpha c = ((65 \<le> code c \<and> code c \<le> 90) \<or> (97 \<le> code c \<and> code c \<le> 122))"

definition is_word :: "char \<Rightarrow> bool" where
  "is_word c = (is_alpha c \<or> is_digit c \<or> c = CHR ''_'')"

definition is_space :: "char \<Rightarrow> bool" where
  "is_space c = ((9 \<le> code c \<and> code c \<le> 13) \<or> code c = 32 \<or> code c = 160)"

definition canon :: "char \<Rightarrow> char" where
  "canon c = (if (97 \<le> code c \<and> code c \<le> 122) \<or> (224 \<le> code c \<and> code c \<le> 254 \<and> code c \<noteq> 247)
              then char_of (code c - 32) else c)"

definition same :: "bool \<Rightarrow> char \<Rightarrow> char \<Rightarrow> bool" where
  "same ci a b = (if ci then canon a = canon b else a = b)"

text \<open>
  The same classes read off the bits of the code unit, for evaluation.
\<close>

lemma canon_Char [code]:
  "canon (Char b0 b1 b2 b3 b4 b5 b6 b7) =
     (if b5 \<and> b6 \<and> (if b7 then \<not> (b0 \<and> b1 \<and> b2 \<and> b4)
                        else (b0 \<or> b1 \<or> b2 \<or> b3 \<or> b4) \<and> \<not> (b4 \<and> b3 \<and> (b2 \<or> (b1 \<and> b0))))
      then Char b0 b1 b2 b3 b4 False b6 b7 else Char b0 b1 b2 b3 b4 b5 b6 b7)"
  by (cases b0; cases b1; cases b2; cases b3; cases b4; cases b5; cases b6; cases b7)
     (simp_all add: canon_def code_def char_of_def bit_Suc_0_iff)

lemma is_digit_Char [code]:
  "is_digit (Char b0 b1 b2 b3 b4 b5 b6 b7) =
     (b4 \<and> b5 \<and> \<not> b6 \<and> \<not> b7 \<and> \<not> (b3 \<and> (b2 \<or> b1)))"
  by (cases b0; cases b1; cases b2; cases b3; cases b4; cases b5; cases b6; cases b7)
     (simp_all add: is_digit_def code_def)

lemma is_alpha_Char [code]:
  "is_alpha (Char b0 b1 b2 b3 b4 b5 b6 b7) =
     (b6 \<and> \<not> b7 \<and> (b0 \<or> b1 \<or> b2 \<or> b3 \<or> b4) \<and> \<not> (b4 \<and> b3 \<and> (b2 \<or> (b1 \<and> b0))))"
  by (cases b0; cases b1; cases b2; cases b3; cases b4; cases b5; cases b6; cases b7)
     (simp_all add: is_alpha_def code_def)

lemma is_space_Char [code]:
  "is_space (Char b0 b1 b2 b3 b4 b5 b6 b7) =
     (if b5 then \<not> (b0 \<or> b1 \<or> b2 \<or> b3 \<or> b4 \<or> b6)
      else \<not> b4 \<and> \<not> b6 \<and> \<not> b7 \<and> b3 \<and> (if b2 then \<not> b1 else b0 \<or> b1))"
  by (cases b0; cases b1; cases b2; cases b3; cases b4; cases b5; cases b6; cases b7)
     (simp_all add: is_space_def code_def)

fun starts :: "bool \<Rightarrow> string \<Rightarrow> string \<Rightarrow> bool" where
  "starts ci [] s = True"
| "starts ci (a # w) [] = False"
| "starts ci (a # w) (c # cs) = (same ci a c \<and> starts ci w cs)"

definition last_opt :: "char option \<Rightarrow> string \<Rightarrow> char option" where
  "last_opt p w = (if w = [] then p else Some (last w))"

definition word_at :: "char option \<Rightarrow> bool" where
  "word_at p = (case p of None \<Rightarrow> False | Some c \<Rightarrow> is_word c)"

definition next_of :: "string \<Rightarrow> char option" where
  "next_of s = (case s of [] \<Rightarrow> None | c # _ \<Rightarrow> Some c)"

text \<open>
  \<open>rep_match P gr n\<close> is the class \<open>P\<close> repeated \<open>{n,}\<close>: greedy (\<open>gr\<close>) tries one more code unit
  before the continuation, lazy tries the continuation first.
\<close>

fun rep_match :: "(char \<Rightarrow> bool) \<Rightarrow> bool \<Rightarrow> nat \<Rightarrow> (mstate \<Rightarrow> mstate option) \<Rightarrow> mstate \<Rightarrow> mstate option" where
  "rep_match P gr n k (p, [], g) = (if n = 0 then k (p, [], g) else None)"
| "rep_match P gr n k (p, c # cs, g) =
     (if 0 < n then (if P c then rep_match P gr (n - 1) k (Some c, cs, g) else None)
      else if gr then
        (case (if P c then rep_match P gr 0 k (Some c, cs, g) else None) of
           Some r \<Rightarrow> Some r
         | None \<Rightarrow> k (p, c # cs, g))
      else
        (case k (p, c # cs, g) of
           Some r \<Rightarrow> Some r
         | None \<Rightarrow> if P c then rep_match P gr 0 k (Some c, cs, g) else None))"

primrec rmatch :: "rx \<Rightarrow> (mstate \<Rightarrow> mstate option) \<Rightarrow> mstate \<Rightarrow> mstate option" where
  "rmatch Eps k st = k st"
| "rmatch (Cls P) k st =
     (case st of (p, s, g) \<Rightarrow>
        (case s of [] \<Rightarrow> None | c # cs \<Rightarrow> if P c then k (Some c, cs, g) else None))"
| "rmatch (Lit ci w) k st =
     (case st of (p, s, g) \<Rightarrow>
        if starts ci w s then k (last_opt p (take (length w) s), drop (length w) s, g) else None)"
| "rmatch (Seq a b) k st = rmatch a (rmatch b k) st"
| "rmatch (Alt a b) k st = (case rmatch a k st of Some r \<Rightarrow> Some r | None \<Rightarrow> rmatch b k st)"
| "rmatch (Rep gr n P) k st = rep_match P gr n k st"
| "rmatch (Grp a) k st =
     (case st of (p, s, g) \<Rightarrow>
        rmatch a (\<lambda>(p', s', g'). k (p', s', Some (take (length s - length s') s))) (p, s, g))"
| "rmatch Bnd k st =
     (case st of (p, s, g) \<Rightarrow> if word_at p \<noteq> word_at (next_of s) then k st else None)"
| "rmatch Bol k st = (case st of (p, s, g) \<Rightarrow> if p = None then k st else None)"
| "rmatch Eol k st = (case st of (p, s, g) \<Rightarrow> if s = [] then k st else None)"

text \<open>
  \<open>search\<close> tries the pattern at each position from the left, as \<open>exec\<close> does without the
  flags \<open>g\<close> and \<open>y\<close>; it returns the text skipped and the final state. \<open>test\<close> is
  \<open>RegExp.prototype.test\<close>.
\<close>

fun search :: "rx \<Rightarrow> char option \<Rightarrow> string \<Rightarrow> (string \<times> mstate) option" where
  "search r p [] = (case rmatch r Some (p, [], None) of Some st \<Rightarrow> Some ([], st) | None \<Rightarrow> None)"
| "search r p (c # cs) =
     (case rmatch r Some (p, c # cs, None) of
        Some st \<Rightarrow> Some ([], st)
      | None \<Rightarrow> (case search r (Some c) cs of Some (pre, st) \<Rightarrow> Some (c # pre, st) | None \<Rightarrow> None))"

definition test :: "rx \<Rightarrow> string \<Rightarrow> bool" where
  "test r s = (search r None s \<noteq> None)"


lemma last_opt_simps [simp]:
  "last_opt p [] = p"
  "last_opt p (c # w) = last_opt (Some c) w"
  "last_opt p (a @ b) = last_opt (last_opt p a) b"
  by (auto simp: last_opt_def)

lemma rep_match_sound:
  "rep_match P gr n k (p, s, g) = Some res \<Longrightarrow>
   \<exists>w s'. s = w @ s' \<and> n \<le> length w \<and> list_all P w \<and> k (last_opt p w, s', g) = Some res"
proof (induction s arbitrary: n p)
  case Nil
  then show ?case by (auto split: if_splits)
next
  case (Cons c cs)
  show ?case
  proof (cases "k (p, c # cs, g) = Some res \<and> n = 0")
    case True
    then have "c # cs = [] @ (c # cs) \<and> n \<le> length ([]::string) \<and> list_all P [] \<and> k (last_opt p [], c # cs, g) = Some res"
      by simp
    then show ?thesis by blast
  next
    case False
    with Cons.prems have pc: "P c" and rec: "rep_match P gr (n - 1) k (Some c, cs, g) = Some res"
      by (auto split: if_splits option.splits)
    from Cons.IH [OF rec] obtain w s' where
      w: "cs = w @ s'" "n - 1 \<le> length w" "list_all P w" "k (last_opt (Some c) w, s', g) = Some res"
      by blast
    with pc have "c # cs = (c # w) @ s' \<and> n \<le> length (c # w) \<and> list_all P (c # w)
        \<and> k (last_opt p (c # w), s', g) = Some res"
      by auto
    then show ?thesis by blast
  qed
qed

lemma m_sound:
  "rmatch r k (p, s, g) = Some res \<Longrightarrow> \<exists>w s' g'. s = w @ s' \<and> k (last_opt p w, s', g') = Some res"
proof (induction r arbitrary: k p s g res)
  case Eps
  then have "s = [] @ s \<and> k (last_opt p [], s, g) = Some res" by simp
  then show ?case by blast
next
  case (Cls P)
  then obtain c cs where "s = [c] @ cs" "k (last_opt p [c], cs, g) = Some res"
    by (auto split: list.splits if_splits)
  then show ?case by blast
next
  case (Lit ci w)
  then have "s = take (length w) s @ drop (length w) s"
    "k (last_opt p (take (length w) s), drop (length w) s, g) = Some res"
    by (auto split: if_splits)
  then show ?case by blast
next
  case (Seq a b)
  from Seq.prems have "rmatch a (rmatch b k) (p, s, g) = Some res" by simp
  from Seq.IH(1) [OF this] obtain w1 s1 g1 where
    1: "s = w1 @ s1" "rmatch b k (last_opt p w1, s1, g1) = Some res" by blast
  from Seq.IH(2) [OF 1(2)] obtain w2 s2 g2 where
    2: "s1 = w2 @ s2" "k (last_opt (last_opt p w1) w2, s2, g2) = Some res" by blast
  from 1 2 have "s = (w1 @ w2) @ s2 \<and> k (last_opt p (w1 @ w2), s2, g2) = Some res" by simp
  then show ?case by blast
next
  case (Alt a b)
  from Alt.prems have "rmatch a k (p, s, g) = Some res \<or> rmatch b k (p, s, g) = Some res"
    by (simp split: option.splits)
  then show ?case
  proof
    assume "rmatch a k (p, s, g) = Some res"
    then show ?thesis by (rule Alt.IH(1))
  next
    assume "rmatch b k (p, s, g) = Some res"
    then show ?thesis by (rule Alt.IH(2))
  qed
next
  case (Rep gr n P)
  then have "rep_match P gr n k (p, s, g) = Some res" by simp
  from rep_match_sound [OF this] show ?case by blast
next
  case (Grp a)
  let ?k = "\<lambda>(p', s', g'). k (p', s', Some (take (length s - length s') s))"
  from Grp.prems have "rmatch a ?k (p, s, g) = Some res" by simp
  from Grp.IH [OF this] have
    "\<exists>w s'. s = w @ s' \<and> k (last_opt p w, s', Some (take (length s - length s') s)) = Some res"
    by simp
  then obtain w s' where
    "s = w @ s'" "k (last_opt p w, s', Some (take (length s - length s') s)) = Some res"
    by (elim exE conjE)
  then show ?case by (intro exI conjI)
next
  case Bnd
  then have "s = [] @ s \<and> k (last_opt p [], s, g) = Some res" by (auto split: if_splits)
  then show ?case by blast
next
  case Bol
  then have "s = [] @ s \<and> k (last_opt p [], s, g) = Some res" by (auto split: if_splits)
  then show ?case by blast
next
  case Eol
  then have "s = [] @ s \<and> k (last_opt p [], s, g) = Some res" by (auto split: if_splits)
  then show ?case by blast
qed

lemma exec_sound:
  "rmatch r Some (p, s, g) = Some (p', s', g') \<Longrightarrow> \<exists>w. s = w @ s' \<and> p' = last_opt p w"
  by (drule m_sound) auto

lemma search_sound:
  "search r p s = Some (pre, (p', s', g')) \<Longrightarrow>
   \<exists>w. s = pre @ w @ s' \<and> p' = last_opt (last_opt p pre) w
     \<and> rmatch r Some (last_opt p pre, w @ s', None) = Some (p', s', g')"
proof (induction s arbitrary: p pre)
  case Nil
  then have e: "rmatch r Some (p, [], None) = Some (p', s', g')" and "pre = []"
    by (auto split: option.splits)
  from exec_sound [OF e] e \<open>pre = []\<close> show ?case by auto
next
  case (Cons c cs)
  show ?case
  proof (cases "rmatch r Some (p, c # cs, None)")
    case (Some st)
    with Cons.prems have e: "rmatch r Some (p, c # cs, None) = Some (p', s', g')" and "pre = []"
      by auto
    from exec_sound [OF e] e \<open>pre = []\<close> show ?thesis by auto
  next
    case None
    with Cons.prems obtain pre' where
      "search r (Some c) cs = Some (pre', (p', s', g'))" "pre = c # pre'"
      by (auto split: option.splits)
    with Cons.IH [of "Some c" pre'] show ?thesis by auto
  qed
qed

lemma search_length:
  "search r p s = Some (pre, (p', s', g')) \<Longrightarrow> length pre + length s' \<le> length s"
  by (drule search_sound) auto


text \<open>
  The matched text, and the loop of \<open>match\<close> and \<open>replace\<close> with the flag \<open>g\<close>: \<open>scan\<close> returns
  the matches from the left, each with the text between it and the match before, and the
  text after the last one. After an empty match the next search starts one code unit
  further.
\<close>

definition matched :: "string \<Rightarrow> string \<Rightarrow> string \<Rightarrow> string" where
  "matched s pre s' = take (length s - length pre - length s') (drop (length pre) s)"

lemma search_matched:
  assumes "search r p s = Some (pre, (p', s', g'))"
  shows "s = pre @ matched s pre s' @ s'"
proof -
  from search_sound [OF assms] obtain w where "s = pre @ w @ s'" by blast
  then show ?thesis by (simp add: matched_def)
qed

lemma scan_dec1:
  assumes "search r p s = Some (pre, (p', s', g'))" and "matched s pre s' \<noteq> []"
  shows "length s' < length s"
proof -
  have "length s = length pre + length (matched s pre s') + length s'"
    using search_matched [OF assms(1)] by (metis length_append add.assoc)
  with assms(2) show ?thesis by simp
qed

lemma scan_dec2:
  assumes "search r p s = Some (pre, (p', c # cs, g'))"
  shows "length cs < length s"
  using search_length [OF assms] by simp

function scan :: "rx \<Rightarrow> char option \<Rightarrow> string \<Rightarrow> (string \<times> string) list \<times> string" where
  "scan r p s =
     (case search r p s of
        None \<Rightarrow> ([], s)
      | Some (pre, (p', s', g)) \<Rightarrow>
          if matched s pre s' \<noteq> [] then
            (case scan r p' s' of (ms, rst) \<Rightarrow> ((pre, matched s pre s') # ms, rst))
          else
            (case s' of
               [] \<Rightarrow> ([(pre, [])], [])
             | c # cs \<Rightarrow>
                 (case scan r (Some c) cs of
                    ([], rst) \<Rightarrow> ([(pre, [])], c # rst)
                  | ((gap, w) # ms, rst) \<Rightarrow> ((pre, []) # (c # gap, w) # ms, rst))))"
  by pat_completeness auto
termination
  by (relation "measure (\<lambda>(r, p, s). length s)") (auto dest: scan_dec1 scan_dec2)


definition subst :: "rx \<Rightarrow> string \<Rightarrow> char option \<Rightarrow> string \<Rightarrow> string" where
  "subst r rep p s = (case scan r p s of (ms, rst) \<Rightarrow> concat (map (\<lambda>(gap, w). gap @ rep) ms) @ rst)"

definition js_replace_all :: "rx \<Rightarrow> string \<Rightarrow> string \<Rightarrow> string" where
  "js_replace_all r rep s = subst r rep None s"

definition js_match_all :: "rx \<Rightarrow> string \<Rightarrow> string list" where
  "js_match_all r s = map snd (fst (scan r None s))"


section \<open>The whitespace normaliser\<close>

text \<open>
  \<open>clean\<close> of \<open>src/extract.ts\<close> (the same text in every extractor of \<open>part_000\<close> and
  \<open>part_001\<close>): \<open>(s || "").replace(/\s+/g, " ").trim()\<close>. The argument is \<open>None\<close> for \<open>null\<close> and
  \<open>undefined\<close>. \<open>trim\<close> removes the code units of \<open>\s\<close> at both ends.
\<close>

definition trim :: "string \<Rightarrow> string" where
  "trim s = rev (dropWhile is_space (rev (dropWhile is_space s)))"

definition clean :: "string option \<Rightarrow> string" where
  "clean s = trim (js_replace_all (Rep True 1 is_space) '' '' (case s of None \<Rightarrow> [] | Some t \<Rightarrow> t))"

text \<open>
  The properties of a string that the claim is about: two whitespace code units in a row
  somewhere, a whitespace code unit first, a whitespace code unit last.
\<close>

fun spaced :: "string \<Rightarrow> bool" where
  "spaced (a # b # cs) = ((is_space a \<and> is_space b) \<or> spaced (b # cs))"
| "spaced cs = False"

definition space_first :: "string \<Rightarrow> bool" where
  "space_first s = (case s of [] \<Rightarrow> False | c # _ \<Rightarrow> is_space c)"

definition space_last :: "string \<Rightarrow> bool" where
  "space_last s = space_first (rev s)"

lemma rep_match_greedy_Some:
  "rep_match P True n Some (p, s, g) =
     (if n \<le> length (takeWhile P s) then Some (last_opt p (takeWhile P s), dropWhile P s, g)
      else None)"
  by (induction s arbitrary: n p) auto

lemma search_run:
  "search (Rep True (Suc 0) P) p s =
     (if list_ex P s
      then Some (takeWhile (\<lambda>c. \<not> P c) s,
                 (Some (last (takeWhile P (dropWhile (\<lambda>c. \<not> P c) s))),
                  dropWhile P (dropWhile (\<lambda>c. \<not> P c) s), None))
      else None)"
  by (induction s arbitrary: p) (auto simp: rep_match_greedy_Some last_opt_def)

lemma matched_append: "matched (a @ w @ b) a b = w"
  by (simp add: matched_def)

lemma matched_run:
  "matched s (takeWhile (\<lambda>c. \<not> P c) s) (dropWhile P (dropWhile (\<lambda>c. \<not> P c) s))
     = takeWhile P (dropWhile (\<lambda>c. \<not> P c) s)"
proof -
  let ?a = "takeWhile (\<lambda>c. \<not> P c) s" and ?b = "dropWhile (\<lambda>c. \<not> P c) s"
  have e: "?a @ takeWhile P ?b @ dropWhile P ?b = s" by simp
  show ?thesis
    using matched_append [of ?a "takeWhile P ?b" "dropWhile P ?b"] unfolding e .
qed

lemma run_nonempty:
  "list_ex P s \<Longrightarrow> takeWhile P (dropWhile (\<lambda>c. \<not> P c) s) \<noteq> []"
  by (induction s) auto

declare scan.simps [simp del]

lemma scan_run:
  "scan (Rep True (Suc 0) P) p s =
     (if list_ex P s
      then (case scan (Rep True (Suc 0) P)
                   (Some (last (takeWhile P (dropWhile (\<lambda>c. \<not> P c) s))))
                   (dropWhile P (dropWhile (\<lambda>c. \<not> P c) s)) of
              (ms, rst) \<Rightarrow>
                ((takeWhile (\<lambda>c. \<not> P c) s, takeWhile P (dropWhile (\<lambda>c. \<not> P c) s)) # ms, rst))
      else ([], s))"
proof (cases "list_ex P s")
  case True
  with run_nonempty [OF True] show ?thesis
    by (subst scan.simps) (simp add: search_run matched_run)
next
  case False
  then show ?thesis
    by (subst scan.simps) (simp add: search_run)
qed

lemma subst_run:
  "subst (Rep True (Suc 0) P) rep p s =
     (if list_ex P s
      then takeWhile (\<lambda>c. \<not> P c) s @ rep
           @ subst (Rep True (Suc 0) P) rep (Some (last (takeWhile P (dropWhile (\<lambda>c. \<not> P c) s))))
               (dropWhile P (dropWhile (\<lambda>c. \<not> P c) s))
      else s)"
  unfolding subst_def
  by (subst scan_run) (simp split: prod.splits)


text \<open>
  \<open>squeeze\<close> replaces every run of whitespace by one space by structural recursion (the
  flag says that the code unit before was whitespace); the global replace of \<open>clean\<close> is
  proved equal to it.
\<close>

fun squeeze :: "bool \<Rightarrow> string \<Rightarrow> string" where
  "squeeze b [] = []"
| "squeeze b (c # cs) =
     (if is_space c then (if b then squeeze True cs else CHR '' '' # squeeze True cs)
      else c # squeeze False cs)"

lemma squeeze_True: "squeeze True s = squeeze False (dropWhile is_space s)"
  by (induction s) auto

lemma squeeze_False:
  "squeeze False s =
     (if list_ex is_space s
      then takeWhile (\<lambda>c. \<not> is_space c) s @ '' ''
           @ squeeze False (dropWhile is_space (dropWhile (\<lambda>c. \<not> is_space c) s))
      else s)"
  by (induction s) (auto simp: squeeze_True)

lemma length_dropWhile_run:
  "list_ex P s \<Longrightarrow> length (dropWhile P (dropWhile (\<lambda>c. \<not> P c) s)) < length s"
proof -
  assume "list_ex P s"
  from run_nonempty [OF this] have "0 < length (takeWhile P (dropWhile (\<lambda>c. \<not> P c) s))"
    by simp
  moreover have "length s = length (takeWhile (\<lambda>c. \<not> P c) s)
      + (length (takeWhile P (dropWhile (\<lambda>c. \<not> P c) s))
         + length (dropWhile P (dropWhile (\<lambda>c. \<not> P c) s)))"
    by (metis length_append takeWhile_dropWhile_id)
  ultimately show ?thesis by linarith
qed

lemma subst_squeeze: "subst (Rep True (Suc 0) is_space) '' '' p s = squeeze False s"
proof (induction s arbitrary: p rule: length_induct)
  case (1 s)
  show ?case
  proof (cases "list_ex is_space s")
    case True
    let ?s' = "dropWhile is_space (dropWhile (\<lambda>c. \<not> is_space c) s)"
    from length_dropWhile_run [OF True] have "length ?s' < length s" .
    with 1 have "\<And>q. subst (Rep True (Suc 0) is_space) '' '' q ?s' = squeeze False ?s'" by blast
    with True show ?thesis
      by (subst subst_run, subst squeeze_False) simp
  next
    case False
    then show ?thesis
      by (subst subst_run, subst squeeze_False) simp
  qed
qed

lemma spaced_Cons: "spaced (a # t) = ((is_space a \<and> space_first t) \<or> spaced t)"
  by (cases t) (auto simp: space_first_def)

lemma squeeze_only_blank: "list_all (\<lambda>c. is_space c \<longrightarrow> c = CHR '' '') (squeeze b s)"
  by (induction s arbitrary: b) auto

lemma squeeze_not_spaced:
  "\<not> spaced (squeeze b s) \<and> (b \<longrightarrow> \<not> space_first (squeeze b s))"
proof (induction s arbitrary: b)
  case Nil
  show ?case by (simp add: space_first_def)
next
  case (Cons c cs)
  from Cons [of True] Cons [of False] show ?case
    by (auto simp: spaced_Cons) (auto simp: space_first_def)
qed

lemma squeeze_fixed:
  "list_all (\<lambda>c. is_space c \<longrightarrow> c = CHR '' '') t \<Longrightarrow> \<not> spaced t \<Longrightarrow>
   (b \<longrightarrow> \<not> space_first t) \<Longrightarrow> squeeze b t = t"
proof (induction t arbitrary: b)
  case Nil
  show ?case by simp
next
  case (Cons c cs)
  show ?case
  proof (cases "is_space c")
    case True
    with Cons.prems have "c = CHR '' ''" "\<not> b" "\<not> space_first cs" "\<not> spaced cs"
      by (auto simp: spaced_Cons space_first_def)
    with Cons.IH [of True] Cons.prems(1) True show ?thesis by simp
  next
    case False
    with Cons.prems have "\<not> spaced cs" by (simp add: spaced_Cons)
    with Cons.IH [of False] Cons.prems(1) False show ?thesis by simp
  qed
qed

lemma spaced_append1: "spaced t \<Longrightarrow> spaced (t @ b)"
  by (induction t rule: spaced.induct) auto

lemma spaced_append2: "spaced t \<Longrightarrow> spaced (a @ t)"
  by (induction a) (auto simp: spaced_Cons)

lemma trim_decomp:
  "t = takeWhile is_space t @ trim t @ rev (takeWhile is_space (rev (dropWhile is_space t)))"
proof -
  let ?u = "dropWhile is_space t"
  have "rev (takeWhile is_space (rev ?u) @ dropWhile is_space (rev ?u)) = ?u"
    by (simp only: takeWhile_dropWhile_id rev_rev_ident)
  then have "?u = trim t @ rev (takeWhile is_space (rev ?u))"
    by (simp only: rev_append trim_def)
  moreover have "t = takeWhile is_space t @ ?u" by simp
  ultimately show ?thesis by metis
qed

lemma not_space_first_dropWhile: "\<not> space_first (dropWhile is_space xs)"
  by (induction xs) (auto simp: space_first_def)

lemma space_first_append: "space_first a \<Longrightarrow> space_first (a @ b)"
  by (cases a) (auto simp: space_first_def)

lemma trim_not_space_last: "\<not> space_last (trim t)"
  by (simp add: space_last_def trim_def not_space_first_dropWhile)

lemma trim_not_space_first: "\<not> space_first (trim t)"
proof
  assume "space_first (trim t)"
  then have "space_first (trim t @ rev (takeWhile is_space (rev (dropWhile is_space t))))"
    by (rule space_first_append)
  moreover have "dropWhile is_space t
      = trim t @ rev (takeWhile is_space (rev (dropWhile is_space t)))"
    using trim_decomp [of t] by (metis same_append_eq takeWhile_dropWhile_id)
  ultimately have "space_first (dropWhile is_space t)" by simp
  then show False by (simp add: not_space_first_dropWhile)
qed

lemma dropWhile_not_space_first: "\<not> space_first v \<Longrightarrow> dropWhile is_space v = v"
  by (cases v) (auto simp: space_first_def)

lemma trim_fixed: "\<not> space_first v \<Longrightarrow> \<not> space_last v \<Longrightarrow> trim v = v"
  by (simp add: trim_def space_last_def dropWhile_not_space_first)

lemma trim_not_spaced: "\<not> spaced t \<Longrightarrow> \<not> spaced (trim t)"
  using trim_decomp [of t] spaced_append1 spaced_append2 by metis

lemma trim_list_all: "list_all Q t \<Longrightarrow> list_all Q (trim t)"
  using trim_decomp [of t] by (metis list_all_append)

lemma clean_squeeze:
  "clean s = trim (squeeze False (case s of None \<Rightarrow> [] | Some t \<Rightarrow> t))"
  by (simp add: clean_def js_replace_all_def subst_squeeze)

text \<open>
  C10. \<open>clean\<close> is idempotent, also on \<open>null\<close> and \<open>undefined\<close> (the input \<open>None\<close>), and
  its result neither begins nor ends with whitespace and has no two whitespace code units
  in a row.
\<close>

theorem clean_idempotent:
  "clean (Some (clean s)) = clean s
   \<and> \<not> space_first (clean s) \<and> \<not> space_last (clean s) \<and> \<not> spaced (clean s)"
proof -
  let ?t = "clean s"
  have blank: "list_all (\<lambda>c. is_space c \<longrightarrow> c = CHR '' '') ?t"
    unfolding clean_squeeze by (rule trim_list_all) (rule squeeze_only_blank)
  have ns: "\<not> spaced ?t"
    unfolding clean_squeeze by (rule trim_not_spaced) (simp add: squeeze_not_spaced)
  have nf: "\<not> space_first ?t" and nl: "\<not> space_last ?t"
    unfolding clean_squeeze by (rule trim_not_space_first, rule trim_not_space_last)
  have "squeeze False ?t = ?t"
    using blank ns by (rule squeeze_fixed) simp
  then have "clean (Some ?t) = trim ?t"
    by (simp add: clean_squeeze [of "Some ?t"])
  also have "\<dots> = ?t" using nf nl by (rule trim_fixed)
  finally show ?thesis using nf nl ns by simp
qed

section \<open>The summary of \<open>src/report.ts\<close>\<close>

text \<open>
  \<open>STATUS_ORDER\<close> and \<open>summarize\<close>. The object \<open>groups\<close> has one array per competitive
  status and is a function from the status to a list; \<open>push\<close> appends at the end. The
  objects \<open>compCounts\<close> (built by \<open>Object.fromEntries\<close>) and \<open>opCounts\<close> (built by
  \<open>reduce\<close>, with \<open>??\<close> for an absent key) are maps.
\<close>

definition STATUS_ORDER :: "estado_comp list" where
  "STATUS_ORDER = [Ganando, Compartiendo_primer_lugar, Perdiendo, SIN_ESTADO]"

record 'r summary =
  total :: nat
  groups :: "estado_comp \<Rightarrow> 'r list"
  compCounts :: "estado_comp \<rightharpoonup> nat"
  opCounts :: "estado_op \<rightharpoonup> nat"

definition push_group ::
  "(estado_comp \<Rightarrow> ('a ParsedRecord_scheme) list) \<Rightarrow> 'a ParsedRecord_scheme
    \<Rightarrow> (estado_comp \<Rightarrow> ('a ParsedRecord_scheme) list)" where
  "push_group g r = g(estado_competencia r := g (estado_competencia r) @ [r])"

definition bump_op ::
  "(estado_op \<rightharpoonup> nat) \<Rightarrow> 'a ParsedRecord_scheme \<Rightarrow> (estado_op \<rightharpoonup> nat)" where
  "bump_op acc r =
     acc(estado_operativo r \<mapsto> (case acc (estado_operativo r) of None \<Rightarrow> 0 | Some n \<Rightarrow> n) + 1)"

definition summarize :: "('a ParsedRecord_scheme) list \<Rightarrow> ('a ParsedRecord_scheme) summary" where
  "summarize rows =
     (let groups = foldl push_group (\<lambda>_. []) rows;
          compCounts = map_of (map (\<lambda>st. (st, length (groups st))) STATUS_ORDER);
          opCounts = foldl bump_op [Activa \<mapsto> 0, Pausada \<mapsto> 0, Inactiva \<mapsto> 0, UNKNOWN \<mapsto> 0] rows
      in \<lparr> total = length rows, groups = groups, compCounts = compCounts, opCounts = opCounts \<rparr>)"

section \<open>Properties of the summary\<close>

lemma foldl_push_group:
  "foldl push_group g rows st = g st @ filter (\<lambda>r. estado_competencia r = st) rows"
  by (induction rows arbitrary: g) (auto simp: push_group_def)

lemma foldl_bump_op:
  "acc op = Some n \<Longrightarrow>
   foldl bump_op acc rows op = Some (n + length (filter (\<lambda>r. estado_operativo r = op) rows))"
  by (induction rows arbitrary: acc n) (auto simp: bump_op_def)

lemma comp_cases_length:
  "length (filter (\<lambda>r. estado_competencia r = Ganando) rows)
   + length (filter (\<lambda>r. estado_competencia r = Compartiendo_primer_lugar) rows)
   + length (filter (\<lambda>r. estado_competencia r = Perdiendo) rows)
   + length (filter (\<lambda>r. estado_competencia r = SIN_ESTADO) rows) = length rows"
proof (induction rows)
  case Nil
  show ?case by simp
next
  case (Cons r rows)
  then show ?case by (cases "estado_competencia r") simp_all
qed

lemma op_cases_length:
  "length (filter (\<lambda>r. estado_operativo r = Activa) rows)
   + length (filter (\<lambda>r. estado_operativo r = Pausada) rows)
   + length (filter (\<lambda>r. estado_operativo r = Inactiva) rows)
   + length (filter (\<lambda>r. estado_operativo r = UNKNOWN) rows) = length rows"
proof (induction rows)
  case Nil
  show ?case by simp
next
  case (Cons r rows)
  then show ?case by (cases "estado_operativo r") simp_all
qed

lemma summarize_groups:
  "groups (summarize rows) st = filter (\<lambda>r. estado_competencia r = st) rows"
  by (simp add: summarize_def Let_def foldl_push_group)

lemma summarize_compCounts:
  "compCounts (summarize rows) st = Some (length (filter (\<lambda>r. estado_competencia r = st) rows))"
  by (cases st) (simp_all add: summarize_def Let_def STATUS_ORDER_def foldl_push_group)

lemma summarize_opCounts:
  "opCounts (summarize rows) op = Some (length (filter (\<lambda>r. estado_operativo r = op) rows))"
proof -
  let ?init = "[Activa \<mapsto> 0, Pausada \<mapsto> 0, Inactiva \<mapsto> 0, UNKNOWN \<mapsto> (0::nat)]"
  have "?init op = Some 0" by (cases op) simp_all
  then have "foldl bump_op ?init rows op
      = Some (0 + length (filter (\<lambda>r. estado_operativo r = op) rows))"
    by (rule foldl_bump_op)
  then show ?thesis
    by (simp add: summarize_def Let_def)
qed

text \<open>
  C7. \<open>summarize\<close> returns the number of rows as \<open>total\<close>; the group of each competitive
  status is the list of the rows with that status, in input order (so every row is in
  the group of its own status and in no other); every \<open>compCounts\<close> entry is the size of
  its group; every \<open>opCounts\<close> entry is the number of rows with that operational status;
  the four \<open>compCounts\<close> and the four \<open>opCounts\<close> each add up to \<open>total\<close>.
\<close>

theorem summarize_partition:
  "total (summarize rows) = length rows
   \<and> (\<forall>st. groups (summarize rows) st = filter (\<lambda>r. estado_competencia r = st) rows)
   \<and> (\<forall>st. compCounts (summarize rows) st = Some (length (groups (summarize rows) st)))
   \<and> (\<forall>op. opCounts (summarize rows) op
            = Some (length (filter (\<lambda>r. estado_operativo r = op) rows)))
   \<and> the (compCounts (summarize rows) Ganando)
       + the (compCounts (summarize rows) Compartiendo_primer_lugar)
       + the (compCounts (summarize rows) Perdiendo)
       + the (compCounts (summarize rows) SIN_ESTADO) = total (summarize rows)
   \<and> the (opCounts (summarize rows) Activa) + the (opCounts (summarize rows) Pausada)
       + the (opCounts (summarize rows) Inactiva) + the (opCounts (summarize rows) UNKNOWN)
       = total (summarize rows)"
proof -
  have t: "total (summarize rows) = length rows"
    by (simp add: summarize_def Let_def)
  show ?thesis
    unfolding summarize_compCounts summarize_opCounts summarize_groups t
    using comp_cases_length [of rows] op_cases_length [of rows] by simp
qed

section \<open>Reading the list of SKUs\<close>

















lemma search_Cls:
  "search (Cls P) p s =
     (case dropWhile (\<lambda>c. \<not> P c) s of
        [] \<Rightarrow> None
      | c # rest \<Rightarrow> Some (takeWhile (\<lambda>c. \<not> P c) s, (Some c, rest, None)))"
  by (induction s arbitrary: p) (simp_all del: dropWhile_eq_Nil_conv split: list.splits)

lemma concat_keep: "\<forall>x\<in>set xs. \<not> P x \<Longrightarrow> concat (map (\<lambda>c. if P c then rep else [c]) xs) = xs"
  by (induction xs) auto

lemma scan_Cls:
  "scan (Cls P) p s =
     (case dropWhile (\<lambda>c. \<not> P c) s of
        [] \<Rightarrow> ([], s)
      | c # rest \<Rightarrow>
          (case scan (Cls P) (Some c) rest of
             (ms, rst) \<Rightarrow> ((takeWhile (\<lambda>c. \<not> P c) s, [c]) # ms, rst)))"
proof (cases "dropWhile (\<lambda>c. \<not> P c) s")
  case Nil
  show ?thesis
    unfolding scan.simps [of "Cls P" p s] search_Cls Nil by simp
next
  case (Cons c rest)
  have "s = takeWhile (\<lambda>c. \<not> P c) s @ [c] @ rest"
    using Cons by (metis append_Cons append_Nil takeWhile_dropWhile_id)
  then have m: "matched s (takeWhile (\<lambda>c. \<not> P c) s) rest = [c]"
    by (metis matched_append)
  show ?thesis
    unfolding scan.simps [of "Cls P" p s] search_Cls Cons by (simp add: m)
qed

lemma subst_Cls: "subst (Cls P) rep p s = concat (map (\<lambda>c. if P c then rep else [c]) s)"
proof (induction s arbitrary: p rule: length_induct)
  case (1 s)
  show ?case
  proof (cases "dropWhile (\<lambda>c. \<not> P c) s")
    case Nil
    then have "\<forall>c\<in>set s. \<not> P c" by (simp add: dropWhile_eq_Nil_conv)
    then have "concat (map (\<lambda>c. if P c then rep else [c]) s) = s"
      by (rule concat_keep)
    moreover have "subst (Cls P) rep p s = s"
      unfolding subst_def scan_Cls [of P p s] Nil by simp
    ultimately show ?thesis by simp
  next
    case (Cons c rest)
    let ?pre = "takeWhile (\<lambda>c. \<not> P c) s"
    have s: "s = ?pre @ c # rest"
      using Cons by (metis takeWhile_dropWhile_id)
    have pc: "P c" using Cons by (metis hd_dropWhile list.sel(1) list.distinct(1))
    have "\<forall>x\<in>set ?pre. \<not> P x" by (metis set_takeWhileD)
    then have pre: "concat (map (\<lambda>c. if P c then rep else [c]) ?pre) = ?pre"
      by (rule concat_keep)
    have "length rest < length s" by (subst s) simp
    with 1 have ih: "subst (Cls P) rep (Some c) rest = concat (map (\<lambda>c. if P c then rep else [c]) rest)"
      by blast
    have "subst (Cls P) rep p s = ?pre @ rep @ subst (Cls P) rep (Some c) rest"
      unfolding subst_def scan_Cls [of P p s] Cons by (simp split: prod.splits)
    also have "\<dots> = concat (map (\<lambda>c. if P c then rep else [c]) (?pre @ c # rest))"
      using pc pre ih by simp
    finally show ?thesis using s by simp
  qed
qed
























section \<open>The CSV file\<close>

text \<open>
  \<open>recordsToCsv\<close>, \<open>csvHeader\<close> and \<open>itemUrl\<close> of \<open>part_001\<close> (lines 477 to 539).
  \<open>encodeURIComponent\<close> keeps the unreserved characters and writes every other code unit
  as the percent-encoded bytes of its UTF-8 form. \<open>join\<close> is \<open>Array.prototype.join\<close>.
\<close>

record RowWithTs = ParsedRecord +
  timestamp :: string

fun join :: "string \<Rightarrow> string list \<Rightarrow> string" where
  "join sep [] = []"
| "join sep [x] = x"
| "join sep (x # y # xs) = x @ sep @ join sep (y # xs)"

definition hex_digit :: "nat \<Rightarrow> char" where
  "hex_digit n = ''0123456789ABCDEF'' ! (n mod 16)"

definition percent :: "nat \<Rightarrow> string" where
  "percent b = [CHR ''%'', hex_digit (b div 16), hex_digit (b mod 16)]"

definition uri_unreserved :: "char \<Rightarrow> bool" where
  "uri_unreserved c = (is_alpha c \<or> is_digit c \<or> c \<in> set ''-_.!~*'()'')"

definition encodeURIComponent :: "string \<Rightarrow> string" where
  "encodeURIComponent s =
     concat (map (\<lambda>c. if uri_unreserved c then [c]
                       else if code c < 128 then percent (code c)
                       else percent (192 + code c div 64) @ percent (128 + code c mod 64)) s)"

definition BASE :: string where
  "BASE = ''https://www.mercadolibre.com.uy''"

definition itemUrl :: "string \<Rightarrow> string" where
  "itemUrl item_id = (if item_id \<noteq> [] then BASE @ ''/syi/core/modify?itemId='' @ encodeURIComponent item_id else [])"

definition csvHeader :: string where
  "csvHeader = ''SKU,ITEM_ID,ESTADO_COMPETENCIA,ESTADO_OPERATIVO,TITULO,URL,TIMESTAMP'' @ [CHR 0x0A]"

definition rx_dquote :: rx where
  "rx_dquote = Cls (\<lambda>c. c = CHR 0x22)"

definition esc :: "string \<Rightarrow> string" where
  "esc s = [CHR 0x22] @ js_replace_all rx_dquote [CHR 0x22, CHR 0x22] s @ [CHR 0x22]"

definition recordsToCsv :: "('a RowWithTs_scheme) list \<Rightarrow> string" where
  "recordsToCsv rows =
     (let lines = map (\<lambda>r. join '',''
                    [sku r, itemId r, comp_text (estado_competencia r), op_text (estado_operativo r),
                     esc (titulo r), itemUrl (itemId r), timestamp r]) rows
      in csvHeader @ join [CHR 0x0A] lines @ [CHR 0x0A])"

text \<open>
  The line of one record as the claim describes it.
\<close>

definition csv_line :: "'a RowWithTs_scheme \<Rightarrow> string" where
  "csv_line r =
     sku r @ '','' @ itemId r @ '','' @ comp_text (estado_competencia r) @ '',''
     @ op_text (estado_operativo r) @ '',''
     @ [CHR 0x22] @ concat (map (\<lambda>c. if c = CHR 0x22 then [CHR 0x22, CHR 0x22] else [c]) (titulo r))
     @ [CHR 0x22] @ '',''
     @ itemUrl (itemId r) @ '','' @ timestamp r"

lemma join_terminated:
  "xs \<noteq> [] \<Longrightarrow> join sep xs @ sep = concat (map (\<lambda>x. x @ sep) xs)"
  by (induction sep xs rule: join.induct) auto

lemma esc_doubles:
  "esc s = [CHR 0x22] @ concat (map (\<lambda>c. if c = CHR 0x22 then [CHR 0x22, CHR 0x22] else [c]) s) @ [CHR 0x22]"
  by (simp add: esc_def js_replace_all_def rx_dquote_def subst_Cls)

lemma recordsToCsv_nonempty:
  assumes "rows \<noteq> []"
  shows "recordsToCsv rows = csvHeader @ concat (map (\<lambda>r. csv_line r @ [CHR 0x0A]) rows)"
proof -
  have l: "join '','' [sku r, itemId r, comp_text (estado_competencia r),
      op_text (estado_operativo r), esc (titulo r), itemUrl (itemId r), timestamp r] = csv_line r"
    for r :: "'a RowWithTs_scheme"
    by (simp add: csv_line_def esc_doubles)
  have "recordsToCsv rows = csvHeader @ (join [CHR 0x0A] (map csv_line rows) @ [CHR 0x0A])"
    unfolding recordsToCsv_def Let_def l ..
  also have "join [CHR 0x0A] (map csv_line rows) @ [CHR 0x0A]
      = concat (map (\<lambda>x. x @ [CHR 0x0A]) (map csv_line rows))"
    using assms by (intro join_terminated) simp
  also have "\<dots> = concat (map (\<lambda>r. csv_line r @ [CHR 0x0A]) rows)"
    by (simp add: comp_def)
  finally show ?thesis .
qed

text \<open>
  C6. On a list that is not empty \<open>recordsToCsv\<close> returns the header line and then one
  line for each record, in input order, as \<open>recordsToCsv_nonempty\<close> shows. On the empty
  list \<open>lines.join\<close> is the empty string and the final line break is still appended: the
  header line is followed by an empty line, which is no record's.
\<close>

theorem recordsToCsv_empty:
  "recordsToCsv [] = ''SKU,ITEM_ID,ESTADO_COMPETENCIA,ESTADO_OPERATIVO,TITULO,URL,TIMESTAMP'' @ [CHR 0x0A, CHR 0x0A]
   \<and> recordsToCsv [] \<noteq> csvHeader @ concat (map (\<lambda>r. csv_line r @ [CHR 0x0A]) [])"
  by (simp add: recordsToCsv_def csvHeader_def)

section \<open>The HTML table of the report\<close>































section \<open>The item identifier\<close>

text \<open>
  \<open>String.prototype.match\<close> without the flag \<open>g\<close>: the first match from the left, as the
  pair of the matched text and the capture group. In every pattern below the group is
  outside alternatives, so it is set whenever the pattern matches.
\<close>

definition js_match :: "rx \<Rightarrow> string \<Rightarrow> (string \<times> string option) option" where
  "js_match r s =
     (case search r None s of
        None \<Rightarrow> None
      | Some (pre, (p', s', g)) \<Rightarrow> Some (matched s pre s', g))"

definition group1 :: "string \<times> string option \<Rightarrow> string" where
  "group1 mt = (case snd mt of None \<Rightarrow> [] | Some t \<Rightarrow> t)"

text \<open>
  \<open>pickItemId\<close> of \<open>src/extract.ts\<close> (lines 24 to 31) and the two copies of
  \<open>pickItemIdFromHref\<close> in \<open>part_001\<close>: \<open>pickItemIdFromHref1\<close> at lines 33 to 37, whose pattern
  \<open>rx_itemId_escaped\<close> is \<open>/(?:\\?|&)itemId=(MLU\\d{6,})\\b/i\<close> (an optional backslash or
  \<open>&\<close>, then \<open>itemId=MLU\<close>, a backslash, six or more \<open>d\<close>, a backslash and \<open>b\<close>), and
  \<open>pickItemIdFromHref2\<close> at lines 159 to 163, whose pattern is \<open>rx_itemId\<close>, like that of
  \<open>pickItemId\<close>: \<open>/(?:\?|&)itemId=(MLU\d{6,})\b/i\<close>. An href is \<open>None\<close> for \<open>null\<close> and
  \<open>undefined\<close>.
\<close>

definition rx_itemId :: rx where
  "rx_itemId =
     Seq (Alt (Cls (\<lambda>c. c = CHR ''?'')) (Cls (\<lambda>c. c = CHR ''&'')))
       (Seq (Lit True ''itemId='')
          (Seq (Grp (Seq (Lit True ''MLU'') (Rep True 6 is_digit))) Bnd))"

definition rx_itemId_escaped :: rx where
  "rx_itemId_escaped =
     Seq (Alt (Alt (Cls (\<lambda>c. c = CHR 0x5C)) Eps) (Cls (\<lambda>c. c = CHR ''&'')))
       (Seq (Lit True ''itemId='')
          (Seq (Grp (Seq (Lit True (''MLU'' @ [CHR 0x5C])) (Rep True 6 (same True (CHR ''d'')))))
             (Lit True [CHR 0x5C, CHR ''b''])))"

fun pickItemId :: "string option list \<Rightarrow> string" where
  "pickItemId [] = []"
| "pickItemId (href # hrefs) =
     (case href of
        None \<Rightarrow> pickItemId hrefs
      | Some h \<Rightarrow>
          if h = [] then pickItemId hrefs
          else (case js_match rx_itemId h of Some mt \<Rightarrow> group1 mt | None \<Rightarrow> pickItemId hrefs))"

definition pickItemIdFromHref1 :: "string option \<Rightarrow> string" where
  "pickItemIdFromHref1 href =
     (case href of
        None \<Rightarrow> []
      | Some h \<Rightarrow>
          if h = [] then []
          else (case js_match rx_itemId_escaped h of Some mt \<Rightarrow> group1 mt | None \<Rightarrow> []))"

definition pickItemIdFromHref2 :: "string option \<Rightarrow> string" where
  "pickItemIdFromHref2 href =
     (case href of
        None \<Rightarrow> []
      | Some h \<Rightarrow>
          if h = [] then []
          else (case js_match rx_itemId h of Some mt \<Rightarrow> group1 mt | None \<Rightarrow> []))"

text \<open>
  What the pattern \<open>rx_itemId\<close> asks for, written on the string: \<open>item_here\<close> at the start
  of a string, \<open>first_item\<close> at the first position from the left.
\<close>

definition item_here :: "string \<Rightarrow> string option" where
  "item_here s =
     (case s of
        [] \<Rightarrow> None
      | c # s1 \<Rightarrow>
          if (c = CHR ''?'' \<or> c = CHR ''&'') \<and> starts True ''itemId='' s1
             \<and> starts True ''MLU'' (drop 7 s1)
             \<and> 6 \<le> length (takeWhile is_digit (drop 10 s1))
             \<and> \<not> word_at (next_of (dropWhile is_digit (drop 10 s1)))
          then Some (take (3 + length (takeWhile is_digit (drop 10 s1))) (drop 7 s1))
          else None)"

fun first_item :: "string \<Rightarrow> string option" where
  "first_item [] = None"
| "first_item (c # cs) =
     (case item_here (c # cs) of Some x \<Rightarrow> Some x | None \<Rightarrow> first_item cs)"

lemma rep_match_greedy_longest:
  "(\<And>i. n \<le> i \<Longrightarrow> i < length (takeWhile P s) \<Longrightarrow>
        k (last_opt p (take i s), drop i s, g) = None) \<Longrightarrow>
   rep_match P True n k (p, s, g) =
     (if n \<le> length (takeWhile P s) then k (last_opt p (takeWhile P s), dropWhile P s, g)
      else None)"
proof (induction s arbitrary: n p)
  case Nil
  show ?case by simp
next
  case (Cons c cs)
  show ?case
  proof (cases "P c")
    case False
    then show ?thesis by simp
  next
    case True
    have step: "k (last_opt (Some c) (take i cs), drop i cs, g) = None"
      if "n - 1 \<le> i" "i < length (takeWhile P cs)" for i
      using Cons.prems [of "Suc i"] that True by simp
    have ih: "rep_match P True (n - 1) k (Some c, cs, g) =
        (if n - 1 \<le> length (takeWhile P cs)
         then k (last_opt (Some c) (takeWhile P cs), dropWhile P cs, g) else None)"
      by (rule Cons.IH) (rule step)
    show ?thesis
    proof (cases "0 < n")
      case pos: True
      with True ih show ?thesis by auto
    next
      case zero: False
      then have n: "n = 0" by simp
      have "k (p, c # cs, g) = None"
        using Cons.prems [of 0] True n by simp
      with True ih n show ?thesis by (simp split: option.splits)
    qed
  qed
qed

lemma digit_word: "is_digit c \<Longrightarrow> is_word c"
  by (simp add: is_word_def)

lemma starts_length: "starts ci w s \<Longrightarrow> length w \<le> length s"
  by (induction ci w s rule: starts.induct) auto

lemma take_digits: "take (length (takeWhile P s)) s = takeWhile P s"
  by (induction s) auto

lemma drop_digits: "drop (length (takeWhile P s)) s = dropWhile P s"
  by (induction s) auto

lemma last_take_run:
  "0 < i \<Longrightarrow> i \<le> length (takeWhile P s) \<Longrightarrow> P (last (take i s))"
proof (induction s arbitrary: i)
  case Nil
  then show ?case by simp
next
  case (Cons c cs)
  then have pc: "P c" by (auto split: if_splits)
  show ?case
  proof (cases "i = 1")
    case True
    with pc show ?thesis by simp
  next
    case False
    with Cons.prems obtain j where j: "i = Suc j" "0 < j" by (cases i) auto
    with Cons.prems pc have "j \<le> length (takeWhile P cs)" by simp
    with Cons.IH [of j] j have "P (last (take j cs))" by simp
    moreover from j Cons.prems pc have "take j cs \<noteq> []" by (cases cs) auto
    ultimately show ?thesis using j by simp
  qed
qed

lemma hd_drop_run:
  "i < length (takeWhile P s) \<Longrightarrow> \<exists>d ds. drop i s = d # ds \<and> P d"
proof (induction s arbitrary: i)
  case Nil
  then show ?case by simp
next
  case (Cons c cs)
  then have pc: "P c" by (auto split: if_splits)
  show ?case
  proof (cases i)
    case 0
    with pc show ?thesis by simp
  next
    case (Suc j)
    with Cons.prems pc have "j < length (takeWhile P cs)" by simp
    from Cons.IH [OF this] Suc show ?thesis by simp
  qed
qed

definition bnd_capture :: "string \<Rightarrow> mstate \<Rightarrow> mstate option" where
  "bnd_capture s2 = (\<lambda>(p', s', g'). rmatch Bnd Some (p', s', Some (take (length s2 - length s') s2)))"

lemma bnd_capture_inside:
  assumes "6 \<le> i" and "i < length (takeWhile is_digit s3)"
  shows "bnd_capture s2 (last_opt p (take i s3), drop i s3, g) = None"
proof -
  from assms have "0 < i" "i \<le> length (takeWhile is_digit s3)" by simp_all
  then have "is_digit (last (take i s3))" by (rule last_take_run)
  moreover from assms have "take i s3 \<noteq> []" by (cases s3) auto
  ultimately have l: "word_at (last_opt p (take i s3))"
    by (simp add: last_opt_def word_at_def digit_word)
  from hd_drop_run [OF assms(2)] obtain d ds where "drop i s3 = d # ds" "is_digit d" by blast
  then have "word_at (next_of (drop i s3))"
    by (simp add: next_of_def word_at_def digit_word)
  with l show ?thesis by (simp add: bnd_capture_def)
qed

lemma exec_digits_bnd:
  "rep_match is_digit True 6 (bnd_capture s2) (p, s3, g) =
     (if 6 \<le> length (takeWhile is_digit s3) \<and> \<not> word_at (next_of (dropWhile is_digit s3))
      then Some (Some (last (takeWhile is_digit s3)), dropWhile is_digit s3,
                 Some (take (length s2 - length (dropWhile is_digit s3)) s2))
      else None)"
proof -
  have "rep_match is_digit True 6 (bnd_capture s2) (p, s3, g) =
     (if 6 \<le> length (takeWhile is_digit s3)
      then bnd_capture s2 (last_opt p (takeWhile is_digit s3), dropWhile is_digit s3, g)
      else None)"
    by (rule rep_match_greedy_longest) (rule bnd_capture_inside)
  moreover have "word_at (last_opt p (takeWhile is_digit s3))"
    if "6 \<le> length (takeWhile is_digit s3)"
  proof -
    from that have ne: "takeWhile is_digit s3 \<noteq> []" by auto
    then have "last (takeWhile is_digit s3) \<in> set (takeWhile is_digit s3)" by simp
    then have "is_digit (last (takeWhile is_digit s3))" by (metis set_takeWhileD)
    with ne show ?thesis by (simp add: last_opt_def word_at_def digit_word)
  qed
  moreover have "last_opt p (takeWhile is_digit s3) = Some (last (takeWhile is_digit s3))"
    if "6 \<le> length (takeWhile is_digit s3)"
    using that by (auto simp: last_opt_def)
  ultimately show ?thesis by (auto simp: bnd_capture_def)
qed

lemma exec_group:
  "rmatch (Seq (Grp (Seq (Lit True ''MLU'') (Rep True 6 is_digit))) Bnd) Some (p, s2, None) =
     (if starts True ''MLU'' s2 \<and> 6 \<le> length (takeWhile is_digit (drop 3 s2))
         \<and> \<not> word_at (next_of (dropWhile is_digit (drop 3 s2)))
      then Some (Some (last (takeWhile is_digit (drop 3 s2))), dropWhile is_digit (drop 3 s2),
                 Some (take (3 + length (takeWhile is_digit (drop 3 s2))) s2))
      else None)"
proof (cases "starts True ''MLU'' s2")
  case False
  then show ?thesis by simp
next
  case True
  from starts_length [OF True] have len: "3 \<le> length s2" by simp
  have "length (drop 3 s2)
      = length (takeWhile is_digit (drop 3 s2)) + length (dropWhile is_digit (drop 3 s2))"
    by (metis length_append takeWhile_dropWhile_id)
  with len have e: "length s2 - length (dropWhile is_digit (drop 3 s2))
      = 3 + length (takeWhile is_digit (drop 3 s2))"
    by simp
  have "rmatch (Seq (Grp (Seq (Lit True ''MLU'') (Rep True 6 is_digit))) Bnd) Some (p, s2, None)
      = rep_match is_digit True 6 (bnd_capture s2) (last_opt p (take 3 s2), drop 3 s2, None)"
    using True by (simp add: bnd_capture_def eval_nat_numeral)
  then show ?thesis using True by (simp add: exec_digits_bnd e)
qed

lemma exec_itemId:
  "rmatch rx_itemId Some (p, s, None) =
     (case item_here s of
        None \<Rightarrow> None
      | Some x \<Rightarrow> Some (Some (last (takeWhile is_digit (drop 11 s))),
                       dropWhile is_digit (drop 11 s), Some x))"
proof (cases s)
  case Nil
  then show ?thesis by (simp add: rx_itemId_def item_here_def)
next
  case (Cons c s1)
  have "rmatch rx_itemId Some (p, c # s1, None) =
      (if (c = CHR ''?'' \<or> c = CHR ''&'') \<and> starts True ''itemId='' s1
       then rmatch (Seq (Grp (Seq (Lit True ''MLU'') (Rep True 6 is_digit))) Bnd) Some
              (last_opt (Some c) (take 7 s1), drop 7 s1, None)
       else None)"
    by (simp add: rx_itemId_def eval_nat_numeral split: option.splits)
  then show ?thesis
    unfolding Cons exec_group by (simp add: item_here_def)
qed

lemma search_itemId:
  "(case search rx_itemId p s of None \<Rightarrow> None | Some (pre, (p', s', g)) \<Rightarrow> g) = first_item s"
proof (induction s arbitrary: p)
  case Nil
  show ?case by (simp add: exec_itemId item_here_def)
next
  case (Cons c cs)
  show ?case
  proof (cases "item_here (c # cs)")
    case None
    with Cons [of "Some c"] show ?thesis
      by (auto simp: exec_itemId split: option.splits)
  next
    case (Some x)
    then show ?thesis by (simp add: exec_itemId)
  qed
qed

lemma match_itemId:
  "(case js_match rx_itemId h of Some mt \<Rightarrow> group1 mt | None \<Rightarrow> d)
     = (case first_item h of Some x \<Rightarrow> x | None \<Rightarrow> d)"
proof -
  have g: "search rx_itemId None h = Some (pre, (p', s', g)) \<Longrightarrow> g \<noteq> None" for pre p' s' g
  proof -
    assume a: "search rx_itemId None h = Some (pre, (p', s', g))"
    from search_sound [OF a] obtain w where
      e: "rmatch rx_itemId Some (last_opt None pre, w @ s', None) = Some (p', s', g)" by blast
    show "g \<noteq> None"
    proof (cases "item_here (w @ s')")
      case None
      with e show ?thesis unfolding exec_itemId by simp
    next
      case (Some x)
      with e have "g = Some x" unfolding exec_itemId by simp
      then show ?thesis by simp
    qed
  qed
  show ?thesis
    using search_itemId [of None h] g
    by (auto simp: js_match_def group1_def split: option.splits)
qed

lemma pickItemIdFromHref2_first:
  "pickItemIdFromHref2 href =
     (case href of None \<Rightarrow> [] | Some h \<Rightarrow> (case first_item h of Some x \<Rightarrow> x | None \<Rightarrow> []))"
  by (cases href) (auto simp: pickItemIdFromHref2_def match_itemId)

lemma pickItemId_first:
  "pickItemId hrefs =
     (case List.map_filter (\<lambda>h. case h of None \<Rightarrow> None | Some t \<Rightarrow> first_item t) hrefs of
        [] \<Rightarrow> []
      | x # _ \<Rightarrow> x)"
proof (induction hrefs)
  case Nil
  show ?case by (simp add: List.map_filter_simps)
next
  case (Cons href hrefs)
  show ?case
  proof (cases href)
    case None
    with Cons show ?thesis by (simp add: List.map_filter_simps)
  next
    case (Some h)
    show ?thesis
    proof (cases "first_item h")
      case None
      with Some Cons show ?thesis
        using match_itemId [where h = h and d = "pickItemId hrefs"]
        by (simp add: List.map_filter_simps)
    next
      case (Some x)
      then have "h \<noteq> []" by auto
      with Some \<open>href = Some h\<close> show ?thesis
        using match_itemId [where h = h and d = "pickItemId hrefs"]
        by (simp add: List.map_filter_simps)
    qed
  qed
qed

lemma starts_append: "starts ci w k \<Longrightarrow> starts ci w (k @ t)"
  by (induction ci w k rule: starts.induct) auto

lemma starts_take: "starts ci w s \<Longrightarrow> starts ci w (take (length w) s)"
  by (induction ci w s rule: starts.induct) auto

lemma not_word_next_digits:
  "list_all is_digit ds \<Longrightarrow> \<not> word_at (next_of rest) \<Longrightarrow>
   takeWhile is_digit (ds @ rest) = ds \<and> dropWhile is_digit (ds @ rest) = rest"
proof (induction ds)
  case Nil
  then show ?case
    by (cases rest) (auto simp: next_of_def word_at_def digit_word)
next
  case (Cons d ds)
  then show ?case by simp
qed

lemma item_here_complete:
  assumes "c = CHR ''?'' \<or> c = CHR ''&''"
    and "starts True ''itemId='' key" "length key = 7"
    and "starts True ''MLU'' mlu" "length mlu = 3"
    and "list_all is_digit ds" "6 \<le> length ds"
    and "\<not> word_at (next_of rest)"
  shows "item_here (c # key @ mlu @ ds @ rest) = Some (mlu @ ds)"
proof -
  let ?s1 = "key @ mlu @ ds @ rest"
  have k: "starts True ''itemId='' ?s1" using assms(2) by (rule starts_append)
  have d7: "drop 7 ?s1 = mlu @ ds @ rest" using assms(3) by simp
  have m: "starts True ''MLU'' (drop 7 ?s1)" unfolding d7 using assms(4) by (rule starts_append)
  have d10: "drop 10 ?s1 = ds @ rest" using assms(3,5) by simp
  from not_word_next_digits [OF assms(6,8)] have
    tw: "takeWhile is_digit (ds @ rest) = ds" and dw: "dropWhile is_digit (ds @ rest) = rest"
    by simp_all
  have "take (3 + length ds) (mlu @ ds @ rest) = mlu @ ds" using assms(5) by simp
  with assms(1,7,8) k m show ?thesis
    unfolding item_here_def list.case d10 d7 tw dw by simp
qed

lemma item_here_sound:
  assumes "item_here s = Some x"
  shows "\<exists>c key mlu ds rest. s = c # key @ mlu @ ds @ rest \<and> x = mlu @ ds
           \<and> (c = CHR ''?'' \<or> c = CHR ''&'')
           \<and> starts True ''itemId='' key \<and> length key = 7
           \<and> starts True ''MLU'' mlu \<and> length mlu = 3
           \<and> list_all is_digit ds \<and> 6 \<le> length ds \<and> \<not> word_at (next_of rest)"
proof -
  from assms obtain c s1 where s: "s = c # s1" by (cases s) (auto simp: item_here_def)
  let ?key = "take 7 s1" and ?mlu = "take 3 (drop 7 s1)"
  let ?ds = "takeWhile is_digit (drop 10 s1)" and ?rest = "dropWhile is_digit (drop 10 s1)"
  from assms s have h: "c = CHR ''?'' \<or> c = CHR ''&''" "starts True ''itemId='' s1"
    "starts True ''MLU'' (drop 7 s1)" "6 \<le> length ?ds" "\<not> word_at (next_of ?rest)"
    and x: "x = take (3 + length ?ds) (drop 7 s1)"
    by (auto simp: item_here_def split: if_splits)
  from starts_length [OF h(2)] have l7: "7 \<le> length s1" by simp
  from starts_length [OF h(3)] have l3: "3 \<le> length (drop 7 s1)" by simp
  have k: "starts True ''itemId='' ?key"
    using starts_take [OF h(2)] by (simp add: eval_nat_numeral)
  have m: "starts True ''MLU'' ?mlu"
    using starts_take [OF h(3)] by (simp add: eval_nat_numeral)
  have "drop 3 (drop 7 s1) = drop 10 s1" by simp
  then have d: "drop 7 s1 = ?mlu @ drop 10 s1"
    by (metis append_take_drop_id)
  have e: "s1 = ?key @ ?mlu @ ?ds @ ?rest"
    by (metis append_take_drop_id d takeWhile_dropWhile_id)
  have "x = ?mlu @ ?ds"
  proof -
    have "take (3 + length ?ds) (?mlu @ ?ds @ ?rest) = ?mlu @ ?ds"
      using l3 by (simp add: take_digits)
    with x d show ?thesis by (metis takeWhile_dropWhile_id)
  qed
  moreover have "list_all is_digit ?ds" by (auto simp: list_all_iff dest: set_takeWhileD)
  moreover have "length ?key = 7" "length ?mlu = 3" using l7 l3 by simp_all
  ultimately show ?thesis using s e h k m by blast
qed

lemma first_item_skip:
  "list_all (\<lambda>d. d \<noteq> CHR ''?'' \<and> d \<noteq> CHR ''&'') pre \<Longrightarrow> first_item (pre @ s) = first_item s"
  by (induction pre) (auto simp: item_here_def)

lemma first_item_here: "item_here s = Some x \<Longrightarrow> first_item s = Some x"
  by (cases s) (auto simp: item_here_def)

text \<open>
  C3, as amended. \<open>item_here s\<close> says that the pattern \<open>(?:\?|&)itemId=(MLU\d{6,})\b\<close> with
  the flag \<open>i\<close> matches at the start of \<open>s\<close>: a \<open>?\<close> or \<open>&\<close>, then \<open>itemId=\<close> and \<open>MLU\<close> in
  any letter case, then the whole run of digits, at least six of them, with no letter,
  digit or underscore after it; its value is \<open>MLU\<close> as written in the href with that run.
  \<open>first_item\<close> is the first such place from the left. \<open>pickItemIdFromHref\<close> of line 159
  returns the identifier of the first such place of the href and the empty string when
  there is none (also for \<open>null\<close>, \<open>undefined\<close> and the empty href); \<open>pickItemId\<close> returns what
  the first href of its list with such a place gives, and the empty string when none has
  one. The copy of \<open>pickItemIdFromHref\<close> at line 33 is left out of the statement.
\<close>

theorem pickItemId_first_item:
  "pickItemIdFromHref2 href =
     (case href of None \<Rightarrow> [] | Some h \<Rightarrow> (case first_item h of Some x \<Rightarrow> x | None \<Rightarrow> []))
   \<and> pickItemId hrefs =
     (case List.map_filter (\<lambda>h. case h of None \<Rightarrow> None | Some t \<Rightarrow> first_item t) hrefs of
        [] \<Rightarrow> []
      | x # _ \<Rightarrow> x)
   \<and> (item_here s = Some x \<longrightarrow>
        (\<exists>c key mlu ds rest. s = c # key @ mlu @ ds @ rest \<and> x = mlu @ ds
           \<and> (c = CHR ''?'' \<or> c = CHR ''&'')
           \<and> starts True ''itemId='' key \<and> length key = 7
           \<and> starts True ''MLU'' mlu \<and> length mlu = 3
           \<and> list_all is_digit ds \<and> 6 \<le> length ds \<and> \<not> word_at (next_of rest)))
   \<and> ((c = CHR ''?'' \<or> c = CHR ''&'')
        \<and> starts True ''itemId='' key \<and> length key = 7
        \<and> starts True ''MLU'' mlu \<and> length mlu = 3
        \<and> list_all is_digit ds \<and> 6 \<le> length ds \<and> \<not> word_at (next_of rest)
        \<and> list_all (\<lambda>d. d \<noteq> CHR ''?'' \<and> d \<noteq> CHR ''&'') pre \<longrightarrow>
        item_here (c # key @ mlu @ ds @ rest) = Some (mlu @ ds)
        \<and> pickItemIdFromHref2 (Some (pre @ c # key @ mlu @ ds @ rest)) = mlu @ ds
        \<and> pickItemId (Some (pre @ c # key @ mlu @ ds @ rest) # later) = mlu @ ds)"
proof (intro conjI impI)
  show "pickItemIdFromHref2 href =
     (case href of None \<Rightarrow> [] | Some h \<Rightarrow> (case first_item h of Some x \<Rightarrow> x | None \<Rightarrow> []))"
    by (rule pickItemIdFromHref2_first)
  show "pickItemId hrefs =
     (case List.map_filter (\<lambda>h. case h of None \<Rightarrow> None | Some t \<Rightarrow> first_item t) hrefs of
        [] \<Rightarrow> []
      | x # _ \<Rightarrow> x)"
    by (rule pickItemId_first)
next
  assume "item_here s = Some x"
  then show "\<exists>c key mlu ds rest. s = c # key @ mlu @ ds @ rest \<and> x = mlu @ ds
           \<and> (c = CHR ''?'' \<or> c = CHR ''&'')
           \<and> starts True ''itemId='' key \<and> length key = 7
           \<and> starts True ''MLU'' mlu \<and> length mlu = 3
           \<and> list_all is_digit ds \<and> 6 \<le> length ds \<and> \<not> word_at (next_of rest)"
    by (rule item_here_sound)
next
  assume a: "(c = CHR ''?'' \<or> c = CHR ''&'')
        \<and> starts True ''itemId='' key \<and> length key = 7
        \<and> starts True ''MLU'' mlu \<and> length mlu = 3
        \<and> list_all is_digit ds \<and> 6 \<le> length ds \<and> \<not> word_at (next_of rest)
        \<and> list_all (\<lambda>d. d \<noteq> CHR ''?'' \<and> d \<noteq> CHR ''&'') pre"
  then have here: "item_here (c # key @ mlu @ ds @ rest) = Some (mlu @ ds)"
    by (intro item_here_complete) simp_all
  then show "item_here (c # key @ mlu @ ds @ rest) = Some (mlu @ ds)" .
  from a have "first_item (pre @ c # key @ mlu @ ds @ rest) = first_item (c # key @ mlu @ ds @ rest)"
    by (intro first_item_skip) simp
  with first_item_here [OF here]
  have f: "first_item (pre @ c # key @ mlu @ ds @ rest) = Some (mlu @ ds)" by simp
  then show "pickItemIdFromHref2 (Some (pre @ c # key @ mlu @ ds @ rest)) = mlu @ ds"
    by (simp add: pickItemIdFromHref2_first)
  from f show "pickItemId (Some (pre @ c # key @ mlu @ ds @ rest) # later) = mlu @ ds"
    by (simp add: pickItemId_first List.map_filter_simps)
qed

theorem pickItemId_first_item_witness:
  "item_here ''?itemId=MLU123456789&x=1'' = Some ''MLU123456789''
   \<and> pickItemIdFromHref2 (Some ''/syi/core/modify?itemId=MLU123456789&x=1'') = ''MLU123456789''
   \<and> pickItemId [Some ''/syi/core/modify?itemId=MLU123456789&x=1'', None] = ''MLU123456789''"
proof -
  have "(CHR ''?'' = CHR ''?'' \<or> CHR ''?'' = CHR ''&'')
        \<and> starts True ''itemId='' ''itemId='' \<and> length ''itemId='' = 7
        \<and> starts True ''MLU'' ''MLU'' \<and> length ''MLU'' = 3
        \<and> list_all is_digit ''123456789'' \<and> 6 \<le> length ''123456789''
        \<and> \<not> word_at (next_of ''&x=1'')
        \<and> list_all (\<lambda>d. d \<noteq> CHR ''?'' \<and> d \<noteq> CHR ''&'') ''/syi/core/modify''"
    by code_simp
  with pickItemId_first_item [of None "[]" "[]" "[]" "CHR ''?''" "''itemId=''" "''MLU''"
      "''123456789''" "''&x=1''" "''/syi/core/modify''" "[None]"]
  show ?thesis by simp
qed

text \<open>
  The href \<open>/m?itemId=MLU123456x\<close> has the parameter \<open>?itemId=MLU\<close> followed by six digits,
  and every extractor returns the empty string for it: the digits are followed by a
  letter, where \<open>\b\<close> does not hold.
\<close>

theorem pickItemId_counterexample:
  "''/m?itemId=MLU123456x'' = ''/m'' @ ''?itemId=MLU'' @ ''123456'' @ ''x''
   \<and> list_all is_digit ''123456'' \<and> 6 \<le> length ''123456''
   \<and> pickItemId [Some ''/m?itemId=MLU123456x''] = []
   \<and> pickItemIdFromHref2 (Some ''/m?itemId=MLU123456x'') = []
   \<and> pickItemIdFromHref1 (Some ''/m?itemId=MLU123456x'') = []"
  by code_simp

text \<open>
  The pattern of the copy at line 33 is written with doubled backslashes inside a regular
  expression literal, so it asks for the text \<open>MLU\\d\<close>, six or more letters \<open>d\<close> and the text
  \<open>\\b\<close>: it finds nothing in an href with a real identifier, where the copy at line 159
  finds it.
\<close>

lemma pickItemIdFromHref1_escaped:
  "pickItemIdFromHref1 (Some ''/syi/core/modify?itemId=MLU123456789'') = []
   \<and> pickItemIdFromHref2 (Some ''/syi/core/modify?itemId=MLU123456789'') = ''MLU123456789''
   \<and> pickItemIdFromHref1 (Some (''&itemId=MLU'' @ [CHR 0x5C] @ ''dddddd'' @ [CHR 0x5C] @ ''b''))
       = ''MLU'' @ [CHR 0x5C] @ ''dddddd''"
  by code_simp

lemma pickItemId_ignores_case:
  "pickItemIdFromHref2 (Some ''/m?ITEMID=mlu1234567'') = ''mlu1234567''"
  by code_simp

section \<open>The plain-HTML parsers\<close>

text \<open>
  The patterns of the two functions \<open>parseHtmlForSku\<close>, in the order of the source;
  \<open>seq\<close> writes a sequence of more than two parts.
\<close>

fun seq :: "rx list \<Rightarrow> rx" where
  "seq [] = Eps"
| "seq [r] = r"
| "seq (r # rs) = Seq r (seq rs)"

definition any_unit :: "char \<Rightarrow> bool" where
  "any_unit c = True"

definition not_gt :: "char \<Rightarrow> bool" where
  "not_gt c = (c \<noteq> CHR ''>'')"

definition not_lt :: "char \<Rightarrow> bool" where
  "not_lt c = (c \<noteq> CHR ''<'')"

definition not_dquote :: "char \<Rightarrow> bool" where
  "not_dquote c = (c \<noteq> CHR 0x22)"

definition quote_mark :: "char \<Rightarrow> bool" where
  "quote_mark c = (c = CHR 0x22 \<or> c = CHR 0x27)"

definition rx_row :: rx where
  "rx_row = seq [Lit False ''<div class=\"sc-list-item-row sc-list-item-row--catalog'',
                 Rep False 0 any_unit, Lit False ''</div>'', Rep True 0 is_space,
                 Lit False ''</div>'', Rep True 0 is_space, Lit False ''</div>'']"

text \<open>
  \<open>sliceRowForSku\<close> (the same text in \<open>part_000\<close> and \<open>part_001\<close>). The needle is built with
  \<open>new RegExp\<close> from a pattern source in which the SKU is interpolated; the source denotes
  the literal text of the SKU when the SKU has only letters, digits and underscores (the
  SKUs that \<open>readSkusCsv\<close> returns are digits), and \<open>needle\<close> is the pattern for those.
\<close>

definition needle :: "string \<Rightarrow> rx" where
  "needle sku_text = seq [Bnd, Lit True ''SKU'', Rep True 0 is_space, Lit True sku_text, Bnd]"

definition sliceRowForSku :: "string \<Rightarrow> string \<Rightarrow> string option" where
  "sliceRowForSku html sku_text =
     (let rows = js_match_all rx_row html
      in case find (test (needle sku_text)) rows of
           None \<Rightarrow> None
         | Some row \<Rightarrow> if row = [] then None else Some row)"

definition rx_ganando :: rx where
  "rx_ganando = seq [Lit True ''>'', Rep True 0 is_space, Lit True ''Ganando'',
                     Rep True 0 is_space, Lit True ''</'']"

definition rx_perdiendo :: rx where
  "rx_perdiendo = seq [Lit True ''>'', Rep True 0 is_space, Lit True ''Perdiendo'',
                       Rep True 0 is_space, Lit True ''</'']"

definition rx_compartiendo :: rx where
  "rx_compartiendo = seq [Lit True ''>'', Rep True 0 is_space, Lit True ''Compartiendo'',
                          Rep True 1 is_space, Lit True ''primer'', Rep True 1 is_space,
                          Lit True ''lugar'', Rep True 0 is_space, Lit True ''</'']"

definition rx_compitiendo :: rx where
  "rx_compitiendo = seq [Lit False ''>'', Rep True 0 is_space, Lit False ''COMPITIENDO'',
                         Rep True 0 is_space, Lit False ''</'']"

definition rx_title_block :: rx where
  "rx_title_block =
     seq [Lit True ''<a'', Rep True 0 not_gt, Lit True ''class=\"'', Rep True 0 not_dquote, Bnd,
          Lit True ''sc-list-item-row-description__title'', Bnd, Rep True 0 not_dquote,
          Lit True ''\"'', Rep True 0 not_gt, Lit True ''>'', Grp (Rep False 0 any_unit),
          Lit True ''</a>'']"

definition rx_title_class :: rx where
  "rx_title_class =
     seq [Lit True ''class=\"sc-list-item-row-description__title\"'', Rep True 0 not_gt,
          Lit True ''>'', Grp (Rep False 0 any_unit), Lit True ''</a>'']"

definition rx_tag :: rx where
  "rx_tag = seq [Lit False ''<'', Rep True 1 not_gt, Lit False ''>'']"

definition rx_sku :: rx where
  "rx_sku = seq [Bnd, Lit True ''SKU'', Rep True 1 is_space, Grp (Rep True 1 is_digit), Bnd]"

definition rx_label :: "string \<Rightarrow> rx" where
  "rx_label word = seq [Lit True ''sc-list-item-status-switch__label'', Rep True 0 not_gt,
                        Lit True ''>'', Rep True 0 is_space, Lit True word, Rep True 0 is_space,
                        Lit True ''<'']"

definition rx_row_class :: "string \<Rightarrow> rx" where
  "rx_row_class modifier = seq [Lit True ''sc-list-item-row'', Rep True 0 not_dquote, Lit True modifier]"

definition rx_switch_label :: rx where
  "rx_switch_label =
     seq [Lit True ''<label'', Rep True 0 not_gt, Lit True ''class=\"'', Rep True 0 not_dquote,
          Lit True ''sc-list-item-status-switch__switch'', Rep True 0 not_dquote, Lit True ''\"'',
          Rep True 0 not_gt, Lit True ''>'', Rep False 0 any_unit, Lit True ''</label>'']"

definition rx_switch_div :: rx where
  "rx_switch_div =
     seq [Lit True ''<div'', Rep True 0 not_gt, Lit True ''class=\"'', Rep True 0 not_dquote,
          Lit True ''sc-list-item-status-switch'', Rep True 0 not_dquote, Lit True ''\"'',
          Rep True 0 not_gt, Lit True ''>'', Rep False 0 any_unit, Lit True ''</div>'']"

definition rx_switch_checked :: rx where
  "rx_switch_checked =
     seq [Lit True ''role='', Cls quote_mark, Lit True ''switch'', Cls quote_mark,
          Rep True 0 not_gt, Bnd, Lit True ''checked'', Bnd]"

definition rx_switch_aria :: "string \<Rightarrow> rx" where
  "rx_switch_aria v =
     seq [Lit True ''role='', Cls quote_mark, Lit True ''switch'', Cls quote_mark,
          Rep True 0 not_gt, Lit True ''aria-checked='', Cls quote_mark, Lit True v,
          Cls quote_mark]"

text \<open>
  \<open>parseHtmlForSku\<close> of \<open>part_000\<close> (lines 33 to 110). The blocks that compute
  \<open>estado_competencia\<close>, \<open>estado_operativo\<close> and \<open>titulo\<close> from the row are functions of
  their own, with the cases in the order of the source.
\<close>

definition estado_competencia_of :: "string \<Rightarrow> estado_comp" where
  "estado_competencia_of row =
     (if test rx_ganando row then Ganando
      else if test rx_perdiendo row then Perdiendo
      else if test rx_compartiendo row then Compartiendo_primer_lugar
      else if test rx_compitiendo row then Compartiendo_primer_lugar
      else SIN_ESTADO)"

definition estado_operativo_of :: "string \<Rightarrow> estado_op" where
  "estado_operativo_of row =
     (if test (rx_label ''Activa'') row then Activa
      else if test (rx_label ''Pausada'') row then Pausada
      else if test (rx_label ''Inactiva'') row then Inactiva
      else
        if test (rx_row_class ''--active'') row then Activa
        else if test (rx_row_class ''--paused'') row then Pausada
        else if test (rx_row_class ''--inactive'') row then Inactiva
        else
          (let switchBlock =
                 (case js_match rx_switch_label row of
                    Some mt \<Rightarrow> if fst mt \<noteq> [] then fst mt
                               else (case js_match rx_switch_div row of
                                       Some mt2 \<Rightarrow> fst mt2 | None \<Rightarrow> [])
                  | None \<Rightarrow> (case js_match rx_switch_div row of
                               Some mt2 \<Rightarrow> fst mt2 | None \<Rightarrow> []))
           in if switchBlock \<noteq> [] then
                (if test rx_switch_checked switchBlock then Activa
                 else if test (rx_switch_aria ''true'') switchBlock then Activa
                 else if test (rx_switch_aria ''false'') switchBlock then Pausada
                 else UNKNOWN)
              else UNKNOWN))"

definition titulo_of :: "string \<Rightarrow> string" where
  "titulo_of row =
     (let mTitleBlock = (case js_match rx_title_block row of
                           Some mt \<Rightarrow> Some mt
                         | None \<Rightarrow> js_match rx_title_class row)
      in case mTitleBlock of
           None \<Rightarrow> []
         | Some mt \<Rightarrow>
             (let inner = group1 mt;
                  textOnly = js_replace_all rx_tag '' '' inner
              in clean (Some textOnly)))"

definition parseHtmlForSku :: "string \<Rightarrow> string \<Rightarrow> ParsedRecord option" where
  "parseHtmlForSku html fallbackSku =
     (case sliceRowForSku html fallbackSku of
        None \<Rightarrow> None
      | Some row \<Rightarrow>
          (let out = \<lparr> sku = fallbackSku, itemId = [], estado_competencia = SIN_ESTADO,
                       estado_operativo = UNKNOWN, titulo = [] \<rparr>;
               out = (case js_match rx_itemId row of
                        Some mItem \<Rightarrow> out\<lparr> itemId := group1 mItem \<rparr>
                      | None \<Rightarrow> out);
               out = out\<lparr> estado_competencia := estado_competencia_of row \<rparr>;
               out = out\<lparr> titulo := titulo_of row \<rparr>;
               out = (case js_match rx_sku row of
                        Some mSku \<Rightarrow> out\<lparr> sku := group1 mSku \<rparr>
                      | None \<Rightarrow> out);
               out = out\<lparr> estado_operativo := estado_operativo_of row \<rparr>;
               hasData = (itemId out \<noteq> [] \<or> titulo out \<noteq> [] \<or> sku out \<noteq> fallbackSku)
           in if hasData then Some out else None))"

text \<open>
  \<open>parseHtmlForSku\<close> of \<open>part_001\<close> (lines 323 to 378), which always returns a record, with
  the further field \<open>url_item\<close>. Each block of the source that assigns a field is a
  function from the record to the record.
\<close>

record ParsedRecordUrl = ParsedRecord +
  url_item :: string

definition rx_itemId_open :: rx where
  "rx_itemId_open =
     Seq (Alt (Cls (\<lambda>c. c = CHR ''?'')) (Cls (\<lambda>c. c = CHR ''&'')))
       (Seq (Lit True ''itemId='') (Grp (Seq (Lit True ''MLU'') (Rep True 6 is_digit))))"

definition rx_json_id :: "string \<Rightarrow> rx" where
  "rx_json_id key =
     seq [Lit True ([CHR 0x22] @ key @ [CHR 0x22]), Rep True 0 is_space, Lit True '':'',
          Rep True 0 is_space, Lit True ''\"'', Grp (Seq (Lit True ''MLU'') (Rep True 1 is_digit)),
          Lit True ''\"'']"

definition rx_title_exact :: rx where
  "rx_title_exact =
     seq [Lit True ''<a'', Rep True 0 not_gt,
          Lit True ''class=\"sc-list-item-row-description__title\"'', Rep True 0 not_gt,
          Lit True ''>'', Grp (Rep True 1 not_lt), Lit True ''</a>'']"

definition rx_title_among :: rx where
  "rx_title_among =
     seq [Lit True ''<a'', Rep True 0 not_gt, Lit True ''class=\"'', Rep True 0 not_dquote,
          Lit True ''sc-list-item-row-description__title'', Rep True 0 not_dquote,
          Lit True ''\"'', Rep True 0 not_gt, Lit True ''>'', Grp (Rep True 1 not_lt),
          Lit True ''</a>'']"

definition rx_href_exact :: rx where
  "rx_href_exact =
     seq [Lit True ''<a'', Rep True 0 not_gt,
          Lit True ''class=\"sc-list-item-row-description__title\"'', Rep True 0 not_gt,
          Lit True ''href=\"'', Grp (Rep True 1 not_dquote), Lit True ''\"'']"

definition rx_href_among :: rx where
  "rx_href_among =
     seq [Lit True ''<a'', Rep True 0 not_gt, Lit True ''class=\"'', Rep True 0 not_dquote,
          Lit True ''sc-list-item-row-description__title'', Rep True 0 not_dquote,
          Lit True ''\"'', Rep True 0 not_gt, Lit True ''href=\"'', Grp (Rep True 1 not_dquote),
          Lit True ''\"'']"

definition rx_ganando_upper :: rx where
  "rx_ganando_upper = seq [Lit False ''>'', Rep True 0 is_space, Lit False ''GANANDO'',
                           Rep True 0 is_space, Lit False ''</'']"

definition rx_perdiendo_upper :: rx where
  "rx_perdiendo_upper = seq [Lit False ''>'', Rep True 0 is_space, Lit False ''PERDIENDO'',
                             Rep True 0 is_space, Lit False ''</'']"

definition with_itemId :: "string \<Rightarrow> string \<Rightarrow> ParsedRecordUrl \<Rightarrow> ParsedRecordUrl" where
  "with_itemId html row out =
     (let mItem = (case js_match rx_itemId_open row of
                     Some mt \<Rightarrow> Some mt
                   | None \<Rightarrow> (case js_match (rx_json_id ''itemId'') html of
                                Some mt \<Rightarrow> Some mt
                              | None \<Rightarrow> js_match (rx_json_id ''item_id'') html))
      in case mItem of Some mt \<Rightarrow> out\<lparr> itemId := group1 mt \<rparr> | None \<Rightarrow> out)"

definition with_titulo :: "string \<Rightarrow> ParsedRecordUrl \<Rightarrow> ParsedRecordUrl" where
  "with_titulo row out =
     (let mTitle = (case js_match rx_title_exact row of
                      Some mt \<Rightarrow> Some mt
                    | None \<Rightarrow> js_match rx_title_among row)
      in case mTitle of
           Some mt \<Rightarrow> out\<lparr> titulo := clean (Some (group1 mt)) \<rparr>
         | None \<Rightarrow> out)"

definition with_url_item :: "string \<Rightarrow> ParsedRecordUrl \<Rightarrow> ParsedRecordUrl" where
  "with_url_item row out =
     (let mHref = (case js_match rx_href_exact row of
                     Some mt \<Rightarrow> Some mt
                   | None \<Rightarrow> js_match rx_href_among row)
      in case mHref of Some mt \<Rightarrow> out\<lparr> url_item := group1 mt \<rparr> | None \<Rightarrow> out)"

definition with_operativo :: "string \<Rightarrow> ParsedRecordUrl \<Rightarrow> ParsedRecordUrl" where
  "with_operativo row out =
     (if test (rx_label ''Activa'') row then out\<lparr> estado_operativo := Activa \<rparr>
      else if test (rx_label ''Inactiva'') row then out\<lparr> estado_operativo := Inactiva \<rparr>
      else if test (rx_label ''Pausada'') row then out\<lparr> estado_operativo := Pausada \<rparr>
      else out\<lparr> estado_operativo := UNKNOWN \<rparr>)"

definition with_competencia :: "string \<Rightarrow> ParsedRecordUrl \<Rightarrow> ParsedRecordUrl" where
  "with_competencia row out =
     (if test rx_ganando row \<or> test rx_ganando_upper row
      then out\<lparr> estado_competencia := Ganando \<rparr>
      else if test rx_perdiendo row \<or> test rx_perdiendo_upper row
      then out\<lparr> estado_competencia := Perdiendo \<rparr>
      else if test rx_compartiendo row \<or> test rx_compitiendo row
      then out\<lparr> estado_competencia := Compartiendo_primer_lugar \<rparr>
      else out\<lparr> estado_competencia := SIN_ESTADO \<rparr>)"

definition with_sku :: "string \<Rightarrow> ParsedRecordUrl \<Rightarrow> ParsedRecordUrl" where
  "with_sku row out =
     (case js_match rx_sku row of
        Some mSku \<Rightarrow> out\<lparr> sku := group1 mSku \<rparr>
      | None \<Rightarrow> out)"

definition parseHtmlForSku_part001 :: "string \<Rightarrow> string \<Rightarrow> ParsedRecordUrl" where
  "parseHtmlForSku_part001 html fallbackSku =
     (let row = (case sliceRowForSku html fallbackSku of Some r \<Rightarrow> r | None \<Rightarrow> html);
          out = \<lparr> sku = fallbackSku, itemId = [], estado_competencia = SIN_ESTADO,
                  estado_operativo = UNKNOWN, titulo = [], url_item = [] \<rparr>;
          out = with_itemId html row out;
          out = with_titulo row out;
          out = with_url_item row out;
          out = with_operativo row out;
          out = with_competencia row out;
          out = with_sku row out
      in out)"


definition label_status :: "string \<Rightarrow> estado_op option" where
  "label_status row =
     (if test (rx_label ''Activa'') row then Some Activa
      else if test (rx_label ''Pausada'') row then Some Pausada
      else if test (rx_label ''Inactiva'') row then Some Inactiva
      else None)"

definition class_status :: "string \<Rightarrow> estado_op option" where
  "class_status row =
     (if test (rx_row_class ''--active'') row then Some Activa
      else if test (rx_row_class ''--paused'') row then Some Pausada
      else if test (rx_row_class ''--inactive'') row then Some Inactiva
      else None)"

definition switch_block :: "string \<Rightarrow> string" where
  "switch_block row =
     (case js_match rx_switch_label row of
        Some mt \<Rightarrow> if fst mt \<noteq> [] then fst mt
                   else (case js_match rx_switch_div row of Some mt2 \<Rightarrow> fst mt2 | None \<Rightarrow> [])
      | None \<Rightarrow> (case js_match rx_switch_div row of Some mt2 \<Rightarrow> fst mt2 | None \<Rightarrow> []))"

definition switch_status :: "string \<Rightarrow> estado_op option" where
  "switch_status row =
     (if switch_block row = [] then None
      else if test rx_switch_checked (switch_block row) then Some Activa
      else if test (rx_switch_aria ''true'') (switch_block row) then Some Activa
      else if test (rx_switch_aria ''false'') (switch_block row) then Some Pausada
      else None)"

definition comp_marker :: "string \<Rightarrow> bool" where
  "comp_marker row =
     (test rx_ganando row \<or> test rx_perdiendo row \<or> test rx_compartiendo row
      \<or> test rx_compitiendo row)"

text \<open>
  Sample pages: one row each.
\<close>

definition html_other :: string where
  "html_other = ''<div class=\"sc-list-item-row sc-list-item-row--catalog\"><a class=\"sc-list-item-row-description__title\">Mesa</a>SKU 21</div></div></div>''"


lemma sliceRowForSku_in_rows:
  "sliceRowForSku html sku0 = Some row \<Longrightarrow>
   row \<in> set (js_match_all rx_row html) \<and> test (needle sku0) row"
  by (auto simp: sliceRowForSku_def Let_def find_Some_iff split: option.splits if_splits)

lemma parse_row:
  "parseHtmlForSku html sku0 = Some r \<Longrightarrow>
   \<exists>row. sliceRowForSku html sku0 = Some row
     \<and> estado_operativo r = estado_operativo_of row
     \<and> estado_competencia r = estado_competencia_of row
     \<and> sku r = (case js_match rx_sku row of Some mSku \<Rightarrow> group1 mSku | None \<Rightarrow> sku0)"
  by (auto simp: parseHtmlForSku_def Let_def split: option.splits if_splits)

lemma operativo_chain:
  "estado_operativo_of row =
     (case label_status row of
        Some st \<Rightarrow> st
      | None \<Rightarrow> (case class_status row of
                   Some st \<Rightarrow> st
                 | None \<Rightarrow> (case switch_status row of Some st \<Rightarrow> st | None \<Rightarrow> UNKNOWN)))"
  by (simp add: estado_operativo_of_def label_status_def class_status_def switch_status_def
      switch_block_def Let_def)

lemma status_values:
  "label_status row \<noteq> Some UNKNOWN" "class_status row \<noteq> Some UNKNOWN"
  "switch_status row \<noteq> Some UNKNOWN"
  by (simp_all add: label_status_def class_status_def switch_status_def)





text \<open>
  Among the labels the order of the tests decides: a text with a Pausada label and then
  an Activa label gives Activa.
\<close>

lemma label_order:
  "estado_operativo_of (''<p class=\"sc-list-item-status-switch__label\">Pausada</p>''
      @ ''<p class=\"sc-list-item-status-switch__label\">Activa</p>'') = Activa"
  by code_simp

definition html_divergent :: string where
  "html_divergent = ''<div class=\"sc-list-item-row sc-list-item-row--catalog sc-list-item-row--active\"><a class=\"sc-list-item-row-description__title\" href=\"/x?itemId=MLU123456x\"><b>T</b></a>SKU 1</div></div></div>''"

text \<open>
  \<open>covers r r'\<close>: the two patterns have the same shape and every literal of \<open>r'\<close> ignores case
  and reads as the literal of \<open>r\<close> up to case. Then \<open>r'\<close> matches wherever \<open>r\<close> does; this
  makes the upper-case tests \<open>/>\s*GANANDO\s*<\//\<close> and \<open>/>\s*PERDIENDO\s*<\//\<close> of
  \<open>part_001\<close> redundant.
\<close>

inductive covers :: "rx \<Rightarrow> rx \<Rightarrow> bool" where
  covers_Lit: "map canon w = map canon w' \<Longrightarrow> covers (Lit ci w) (Lit True w')"
| covers_Seq: "covers a a' \<Longrightarrow> covers b b' \<Longrightarrow> covers (Seq a b) (Seq a' b')"
| covers_Rep: "covers (Rep gr n P) (Rep gr n P)"

lemma same_canon: "same ci a c \<Longrightarrow> canon a = canon c"
  by (cases ci) (simp_all add: same_def)

lemma starts_canon:
  "map canon w = map canon w' \<Longrightarrow> starts ci w s \<Longrightarrow> starts True w' s"
proof (induction ci w s arbitrary: w' rule: starts.induct)
  case (1 ci s)
  then show ?case by simp
next
  case (2 ci a w)
  then show ?case by simp
next
  case (3 ci a w c cs)
  from "3.prems"(1) obtain b v where w': "w' = b # v" "canon a = canon b" "map canon w = map canon v"
    by (cases w') auto
  from "3.prems"(2) have "same ci a c" "starts ci w cs" by simp_all
  with "3.IH" [OF w'(3)] w'(2) same_canon [of ci a c] show ?case
    unfolding w'(1) by (simp add: same_def)
qed

lemma rep_match_mono:
  assumes "\<And>st. k st \<noteq> None \<Longrightarrow> k' st \<noteq> None"
  shows "rep_match P gr n k (p, s, g) \<noteq> None \<Longrightarrow> rep_match P gr n k' (p, s, g) \<noteq> None"
proof (induction s arbitrary: n p)
  case Nil
  with assms [of "(p, [], g)"] show ?case by (auto split: if_splits)
next
  case (Cons c cs)
  show ?case
  proof (cases "0 < n")
    case True
    with Cons.prems Cons.IH [of "n - 1" "Some c"] show ?thesis
      by (auto split: if_splits)
  next
    case False
    then have n: "n = 0" by simp
    from Cons.prems n have "(P c \<and> rep_match P gr 0 k (Some c, cs, g) \<noteq> None)
        \<or> k (p, c # cs, g) \<noteq> None"
      by (auto split: if_splits option.splits)
    then have "(P c \<and> rep_match P gr 0 k' (Some c, cs, g) \<noteq> None)
        \<or> k' (p, c # cs, g) \<noteq> None"
      using Cons.IH [of 0 "Some c"] assms [of "(p, c # cs, g)"] by blast
    then show ?thesis
      unfolding n by (auto split: if_splits option.splits)
  qed
qed

lemma covers_rmatch:
  "covers r r' \<Longrightarrow> (\<And>st. k st \<noteq> None \<Longrightarrow> k' st \<noteq> None) \<Longrightarrow>
   rmatch r k st \<noteq> None \<Longrightarrow> rmatch r' k' st \<noteq> None"
proof (induction arbitrary: k k' st rule: covers.induct)
  case (covers_Lit w w' ci)
  obtain p s g where st: "st = (p, s, g)" by (cases st) auto
  from covers_Lit(1) have len: "length w = length w'" by (metis length_map)
  from covers_Lit(3) have s: "starts ci w s"
    and k: "k (last_opt p (take (length w) s), drop (length w) s, g) \<noteq> None"
    unfolding st by (auto split: if_splits)
  from starts_canon [OF covers_Lit(1) s] covers_Lit(2) [OF k] show ?case
    unfolding st by (simp add: len)
next
  case (covers_Seq a a' b b')
  have "rmatch a' (rmatch b' k') st \<noteq> None"
  proof (rule covers_Seq.IH(1))
    show "rmatch b k st1 \<noteq> None \<Longrightarrow> rmatch b' k' st1 \<noteq> None" for st1
      by (rule covers_Seq.IH(2)) (rule covers_Seq.prems(1))
    show "rmatch a (rmatch b k) st \<noteq> None"
      using covers_Seq.prems(2) by simp
  qed
  then show ?case by simp
next
  case (covers_Rep gr n P)
  obtain p s g where st: "st = (p, s, g)" by (cases st) auto
  from covers_Rep(2) have "rep_match P gr n k (p, s, g) \<noteq> None" unfolding st by simp
  with covers_Rep(1) have "rep_match P gr n k' (p, s, g) \<noteq> None"
    by (rule rep_match_mono)
  then show ?case unfolding st by simp
qed

lemma covers_search:
  "covers r r' \<Longrightarrow> search r p s \<noteq> None \<Longrightarrow> search r' p s \<noteq> None"
proof (induction s arbitrary: p)
  case Nil
  from Nil(2) have h: "rmatch r Some (p, [], None) \<noteq> None" by (auto split: option.splits)
  have "rmatch r' Some (p, [], None) \<noteq> None"
    by (rule covers_rmatch [OF Nil(1) _ h]) simp
  then show ?case by (auto split: option.splits)
next
  case (Cons c cs)
  show ?case
  proof (cases "rmatch r Some (p, c # cs, None)")
    case None
    with Cons.prems(2) have "search r (Some c) cs \<noteq> None" by (auto split: option.splits)
    with Cons.IH [OF Cons.prems(1)] have "search r' (Some c) cs \<noteq> None" by simp
    then show ?thesis by (auto split: option.splits)
  next
    case (Some st)
    then have h: "rmatch r Some (p, c # cs, None) \<noteq> None" by simp
    have "rmatch r' Some (p, c # cs, None) \<noteq> None"
      by (rule covers_rmatch [OF Cons.prems(1) _ h]) simp
    then show ?thesis by (auto split: option.splits)
  qed
qed

lemma covers_test: "covers r r' \<Longrightarrow> test r s \<Longrightarrow> test r' s"
  unfolding test_def by (rule covers_search)

lemma ganando_upper: "test rx_ganando_upper row \<Longrightarrow> test rx_ganando row"
  by (rule covers_test [rotated])
     (auto simp: rx_ganando_def rx_ganando_upper_def canon_Char intro!: covers.intros)

lemma perdiendo_upper: "test rx_perdiendo_upper row \<Longrightarrow> test rx_perdiendo row"
  by (rule covers_test [rotated])
     (auto simp: rx_perdiendo_def rx_perdiendo_upper_def canon_Char intro!: covers.intros)

definition html_winning :: string where
  "html_winning = ''<div class=\"sc-list-item-row sc-list-item-row--catalog\"><a class=\"sc-list-item-row-description__title\" href=\"/m?itemId=MLU123456789\">Mesa</a><span>Ganando</span>SKU 21<p class=\"sc-list-item-status-switch__label\">Activa</p></div></div></div>''"

definition row_part001 :: "string \<Rightarrow> string \<Rightarrow> string" where
  "row_part001 html sku0 = (case sliceRowForSku html sku0 of Some r \<Rightarrow> r | None \<Rightarrow> html)"

lemma with_sku_fields:
  "estado_competencia (with_sku row out) = estado_competencia out"
  "estado_operativo (with_sku row out) = estado_operativo out"
  "sku (with_sku row out) = (case js_match rx_sku row of Some mSku \<Rightarrow> group1 mSku | None \<Rightarrow> sku out)"
  by (simp_all add: with_sku_def split: option.splits)

lemma with_competencia_fields:
  "estado_operativo (with_competencia row out) = estado_operativo out"
  "sku (with_competencia row out) = sku out"
  "estado_competencia (with_competencia row out) =
     (if test rx_ganando row \<or> test rx_ganando_upper row then Ganando
      else if test rx_perdiendo row \<or> test rx_perdiendo_upper row then Perdiendo
      else if test rx_compartiendo row \<or> test rx_compitiendo row then Compartiendo_primer_lugar
      else SIN_ESTADO)"
  by (simp_all add: with_competencia_def)

lemma with_operativo_fields:
  "sku (with_operativo row out) = sku out"
  "estado_operativo (with_operativo row out) =
     (if test (rx_label ''Activa'') row then Activa
      else if test (rx_label ''Inactiva'') row then Inactiva
      else if test (rx_label ''Pausada'') row then Pausada
      else UNKNOWN)"
  by (simp_all add: with_operativo_def)

lemma with_other_fields:
  "sku (with_url_item row out) = sku out"
  "sku (with_titulo row out) = sku out"
  "sku (with_itemId html row out) = sku out"
  by (simp_all add: with_url_item_def with_titulo_def with_itemId_def Let_def split: option.splits)

lemma part001_competencia:
  "estado_competencia (parseHtmlForSku_part001 html sku0) =
     (if test rx_ganando (row_part001 html sku0) \<or> test rx_ganando_upper (row_part001 html sku0)
      then Ganando
      else if test rx_perdiendo (row_part001 html sku0) \<or> test rx_perdiendo_upper (row_part001 html sku0)
      then Perdiendo
      else if test rx_compartiendo (row_part001 html sku0) \<or> test rx_compitiendo (row_part001 html sku0)
      then Compartiendo_primer_lugar
      else SIN_ESTADO)"
  unfolding parseHtmlForSku_part001_def Let_def row_part001_def [symmetric]
  by (simp only: with_sku_fields with_competencia_fields)

lemma part001_operativo:
  "estado_operativo (parseHtmlForSku_part001 html sku0) =
     (if test (rx_label ''Activa'') (row_part001 html sku0) then Activa
      else if test (rx_label ''Inactiva'') (row_part001 html sku0) then Inactiva
      else if test (rx_label ''Pausada'') (row_part001 html sku0) then Pausada
      else UNKNOWN)"
  unfolding parseHtmlForSku_part001_def Let_def row_part001_def [symmetric]
  by (simp only: with_sku_fields with_competencia_fields with_operativo_fields)

lemma part001_sku:
  "sku (parseHtmlForSku_part001 html sku0) =
     (case js_match rx_sku (row_part001 html sku0) of Some mSku \<Rightarrow> group1 mSku | None \<Rightarrow> sku0)"
  unfolding parseHtmlForSku_part001_def Let_def row_part001_def [symmetric]
  by (simp only: with_sku_fields with_competencia_fields with_operativo_fields with_other_fields
      ParsedRecord.select_convs)

lemma part001_competencia_of:
  "estado_competencia (parseHtmlForSku_part001 html sku0)
     = estado_competencia_of (row_part001 html sku0)"
  using ganando_upper [of "row_part001 html sku0"] perdiendo_upper [of "row_part001 html sku0"]
  by (auto simp: part001_competencia estado_competencia_of_def)

lemma competencia_of_marker:
  "(if comp_marker row
    then estado_competencia_of row \<in> {Ganando, Perdiendo, Compartiendo_primer_lugar}
    else estado_competencia_of row = SIN_ESTADO)"
  by (simp add: comp_marker_def estado_competencia_of_def)

text \<open>
  C1, as amended. In a record returned by \<open>parseHtmlForSku\<close> of \<open>part_000\<close> the competitive
  status is Ganando, Perdiendo or Compartiendo primer lugar when the row slice has one of
  the four competitive markers, and SIN_ESTADO when it has none; the operational status is
  Activa, Pausada or Inactiva when one of the three tiers of heuristics gives a status,
  and UNKNOWN when none does. The same holds for the record of \<open>parseHtmlForSku\<close> of
  \<open>part_001\<close>, whose row is the slice or else the whole HTML and whose only operational
  heuristic is the label.
\<close>

theorem parseHtmlForSku_status:
  "(parseHtmlForSku html sku0 = Some r \<longrightarrow>
      (\<exists>row. sliceRowForSku html sku0 = Some row
         \<and> (if comp_marker row
             then estado_competencia r \<in> {Ganando, Perdiendo, Compartiendo_primer_lugar}
             else estado_competencia r = SIN_ESTADO)
         \<and> (if label_status row \<noteq> None \<or> class_status row \<noteq> None \<or> switch_status row \<noteq> None
             then estado_operativo r \<in> {Activa, Pausada, Inactiva}
             else estado_operativo r = UNKNOWN)))
   \<and> (if comp_marker (row_part001 html sku0)
       then estado_competencia (parseHtmlForSku_part001 html sku0)
              \<in> {Ganando, Perdiendo, Compartiendo_primer_lugar}
       else estado_competencia (parseHtmlForSku_part001 html sku0) = SIN_ESTADO)
   \<and> (if label_status (row_part001 html sku0) \<noteq> None
       then estado_operativo (parseHtmlForSku_part001 html sku0) \<in> {Activa, Pausada, Inactiva}
       else estado_operativo (parseHtmlForSku_part001 html sku0) = UNKNOWN)"
proof (intro conjI impI)
  assume "parseHtmlForSku html sku0 = Some r"
  from parse_row [OF this] obtain row where
    row: "sliceRowForSku html sku0 = Some row" "estado_operativo r = estado_operativo_of row"
      "estado_competencia r = estado_competencia_of row"
    by blast
  have "if label_status row \<noteq> None \<or> class_status row \<noteq> None \<or> switch_status row \<noteq> None
        then estado_operativo_of row \<in> {Activa, Pausada, Inactiva}
        else estado_operativo_of row = UNKNOWN"
    using status_values [of row]
    by (cases "label_status row"; cases "class_status row"; cases "switch_status row";
        cases "estado_operativo_of row") (auto simp: operativo_chain)
  with row competencia_of_marker [of row]
  show "\<exists>row. sliceRowForSku html sku0 = Some row
         \<and> (if comp_marker row
             then estado_competencia r \<in> {Ganando, Perdiendo, Compartiendo_primer_lugar}
             else estado_competencia r = SIN_ESTADO)
         \<and> (if label_status row \<noteq> None \<or> class_status row \<noteq> None \<or> switch_status row \<noteq> None
             then estado_operativo r \<in> {Activa, Pausada, Inactiva}
             else estado_operativo r = UNKNOWN)"
    by auto
next
  show "if comp_marker (row_part001 html sku0)
       then estado_competencia (parseHtmlForSku_part001 html sku0)
              \<in> {Ganando, Perdiendo, Compartiendo_primer_lugar}
       else estado_competencia (parseHtmlForSku_part001 html sku0) = SIN_ESTADO"
    unfolding part001_competencia_of by (rule competencia_of_marker)
  show "if label_status (row_part001 html sku0) \<noteq> None
       then estado_operativo (parseHtmlForSku_part001 html sku0) \<in> {Activa, Pausada, Inactiva}
       else estado_operativo (parseHtmlForSku_part001 html sku0) = UNKNOWN"
    by (simp add: part001_operativo label_status_def)
qed

theorem parseHtmlForSku_status_witness:
  "parseHtmlForSku html_winning ''21''
     = Some \<lparr> sku = ''21'', itemId = ''MLU123456789'', estado_competencia = Ganando,
              estado_operativo = Activa, titulo = ''Mesa'' \<rparr>
   \<and> (\<exists>row. sliceRowForSku html_winning ''21'' = Some row \<and> comp_marker row
          \<and> (label_status row \<noteq> None \<or> class_status row \<noteq> None \<or> switch_status row \<noteq> None))"
proof -
  let ?r = "\<lparr> sku = ''21'', itemId = ''MLU123456789'', estado_competencia = Ganando,
              estado_operativo = Activa, titulo = ''Mesa'' \<rparr>"
  have p: "parseHtmlForSku html_winning ''21'' = Some ?r"
    by code_simp
  from parseHtmlForSku_status [of html_winning "''21''" ?r] p
  obtain row where "sliceRowForSku html_winning ''21'' = Some row"
    "if comp_marker row
     then estado_competencia ?r \<in> {Ganando, Perdiendo, Compartiendo_primer_lugar}
     else estado_competencia ?r = SIN_ESTADO"
    "if label_status row \<noteq> None \<or> class_status row \<noteq> None \<or> switch_status row \<noteq> None
     then estado_operativo ?r \<in> {Activa, Pausada, Inactiva}
     else estado_operativo ?r = UNKNOWN"
    by blast
  then have "sliceRowForSku html_winning ''21'' = Some row \<and> comp_marker row
      \<and> (label_status row \<noteq> None \<or> class_status row \<noteq> None \<or> switch_status row \<noteq> None)"
    by (auto split: if_splits)
  with p show ?thesis by blast
qed

text \<open>
  A row with a title and a SKU and no status text: both parsers return a record, with
  SIN_ESTADO and UNKNOWN.
\<close>

theorem parseHtmlForSku_status_counterexample:
  "parseHtmlForSku html_other ''21''
     = Some \<lparr> sku = ''21'', itemId = [], estado_competencia = SIN_ESTADO,
              estado_operativo = UNKNOWN, titulo = ''Mesa'' \<rparr>
   \<and> parseHtmlForSku_part001 html_other ''21''
     = \<lparr> sku = ''21'', itemId = [], estado_competencia = SIN_ESTADO,
         estado_operativo = UNKNOWN, titulo = ''Mesa'', url_item = [] \<rparr>"
  by code_simp

text \<open>
  C2, as amended. Whenever \<open>parseHtmlForSku\<close> of \<open>part_000\<close> returns a record, the record of
  \<open>parseHtmlForSku\<close> of \<open>part_001\<close> for the same HTML and SKU has the same \<open>sku\<close> and the same
  \<open>estado_competencia\<close>. The fields \<open>itemId\<close>, \<open>estado_operativo\<close> and \<open>titulo\<close> are not in
  the statement: the two functions compute them with different patterns.
\<close>

theorem parsers_agree:
  "parseHtmlForSku html sku0 = Some r \<longrightarrow>
     sku (parseHtmlForSku_part001 html sku0) = sku r
     \<and> estado_competencia (parseHtmlForSku_part001 html sku0) = estado_competencia r"
proof
  assume "parseHtmlForSku html sku0 = Some r"
  from parse_row [OF this] obtain row where
    row: "sliceRowForSku html sku0 = Some row"
      "estado_competencia r = estado_competencia_of row"
      "sku r = (case js_match rx_sku row of Some mSku \<Rightarrow> group1 mSku | None \<Rightarrow> sku0)"
    by blast
  from row(1) have "row_part001 html sku0 = row" by (simp add: row_part001_def)
  with row(2,3) show "sku (parseHtmlForSku_part001 html sku0) = sku r
     \<and> estado_competencia (parseHtmlForSku_part001 html sku0) = estado_competencia r"
    by (simp add: part001_sku part001_competencia_of)
qed

theorem parsers_agree_witness:
  "parseHtmlForSku html_winning ''21''
     = Some \<lparr> sku = ''21'', itemId = ''MLU123456789'', estado_competencia = Ganando,
              estado_operativo = Activa, titulo = ''Mesa'' \<rparr>
   \<and> sku (parseHtmlForSku_part001 html_winning ''21'') = ''21''
   \<and> estado_competencia (parseHtmlForSku_part001 html_winning ''21'') = Ganando"
proof -
  let ?r = "\<lparr> sku = ''21'', itemId = ''MLU123456789'', estado_competencia = Ganando,
              estado_operativo = Activa, titulo = ''Mesa'' \<rparr>"
  have p: "parseHtmlForSku html_winning ''21'' = Some ?r"
    by code_simp
  from parsers_agree [of html_winning "''21''" ?r] p show ?thesis by simp
qed

text \<open>
  One row on which the two records differ in \<open>itemId\<close> (the identifier is followed by a
  letter, which only the pattern with \<open>\b\<close> refuses), in \<open>estado_operativo\<close> (the row class
  \<open>--active\<close>, which only \<open>part_000\<close> reads) and in \<open>titulo\<close> (a tag inside the anchor, which
  only \<open>part_000\<close> strips).
\<close>

theorem parsers_agree_counterexample:
  "parseHtmlForSku html_divergent ''1''
     = Some \<lparr> sku = ''1'', itemId = [], estado_competencia = SIN_ESTADO,
              estado_operativo = Activa, titulo = ''T'' \<rparr>
   \<and> parseHtmlForSku_part001 html_divergent ''1''
     = \<lparr> sku = ''1'', itemId = ''MLU123456'', estado_competencia = SIN_ESTADO,
         estado_operativo = UNKNOWN, titulo = [], url_item = ''/x?itemId=MLU123456x'' \<rparr>"
  by code_simp

end
